theory Spec2Isabelle
  imports Main "HOL-Library.Multiset"
begin

section \<open>JavaScript values used by download\_ebook.js\<close>

text \<open>
  A JavaScript string is a sequence of UTF-16 code units; a code unit is a natural number
  here. \<open>str\<close> turns an ASCII literal into its code units. A value that may be
  \<open>undefined\<close> or \<open>null\<close> is an \<open>option\<close>; \<open>truthy\<close> is the test
  that \<open>if (x)\<close>, \<open>!x\<close> and \<open>x || y\<close> apply to such a string.
\<close>

type_synonym jsstring = "nat list"

definition str :: "string \<Rightarrow> jsstring" where
  "str s = map of_char s"

definition truthy :: "jsstring option \<Rightarrow> bool" where
  "truthy v = (case v of None \<Rightarrow> False | Some s \<Rightarrow> s \<noteq> [])"

definition startsWith :: "jsstring \<Rightarrow> jsstring \<Rightarrow> bool" where
  "startsWith s p = (take (length p) s = p)"

text \<open>\<open>String.prototype.trim\<close>: strips WhiteSpace and LineTerminator code units at both ends.\<close>

definition isWhiteSpace :: "nat \<Rightarrow> bool" where
  "isWhiteSpace c =
     (c \<in> set [9, 10, 11, 12, 13, 32, 160, 5760, 8232, 8233, 8239, 8287, 12288, 65279]
      \<or> (8192 \<le> c \<and> c \<le> 8202))"

definition trim :: "jsstring \<Rightarrow> jsstring" where
  "trim s = rev (dropWhile isWhiteSpace (rev (dropWhile isWhiteSpace s)))"

text \<open>
  What a \<open>catch (error)\<close> receives. \<open>message\<close> is \<open>error.message\<close>.
\<close>

datatype js_error = Error jsstring | TypeError jsstring

fun message :: "js_error \<Rightarrow> jsstring" where
  "message (Error m) = m"
| "message (TypeError m) = m"

section \<open>resolveUrl (lines 69--76)\<close>

text \<open>
  \<open>new URL(input, base).href\<close> is the WHATWG URL parser, a capability of the runtime: it
  is the parameter \<open>newURL\<close>, which returns the serialised URL or throws a TypeError.
  The second argument is \<open>None\<close> for the one-argument constructor.
\<close>

type_synonym url_parser = "jsstring \<Rightarrow> jsstring option \<Rightarrow> js_error + jsstring"

definition resolveUrl :: "url_parser \<Rightarrow> jsstring option \<Rightarrow> jsstring \<Rightarrow> js_error + jsstring option" where
  "resolveUrl newURL url baseUrl =
     (case url of
        None \<Rightarrow> Inr None
      | Some u \<Rightarrow>
          if u = [] then Inr None
          else if startsWith u (str ''http://'') \<or> startsWith u (str ''https://'') then Inr (Some u)
          else (case newURL baseUrl None of
                  Inl e \<Rightarrow> Inl e
                | Inr base \<Rightarrow>
                    (case newURL u (Some base) of
                       Inl e \<Rightarrow> Inl e
                     | Inr href \<Rightarrow> Inr (Some href))))"

section \<open>fetchWithRetry (lines 116--145)\<close>

text \<open>
  The body of a successful response, as the program reads it: \<open>cheerio.load(html)\<close>
  answering the selectors of the configuration. Each field is the answer to one query of
  the source.
\<close>

record page =
  titleText :: jsstring
    \<comment> \<open>\<open>$(titleSelector).first().text()\<close>\<close>
  contentText :: jsstring
    \<comment> \<open>\<open>$(contentSelector).first()\<close> with script and style removed, \<open>.text()\<close>\<close>
  nextHrefs :: "jsstring option list"
    \<comment> \<open>\<open>attr(nextPageAttr)\<close> of each element matching \<open>nextPageSelector\<close>, in order\<close>
  paginationControl :: "js_error + jsstring option list option"
    \<comment> \<open>the queries of lines 206--213, which stand outside any \<open>try\<close>: \<open>Inl\<close> when
        \<open>$main(paginationSelector)\<close> or \<open>$select.find(optionSelector)\<close> throws (a selector that
        does not parse), \<open>Inr None\<close> when \<open>$select.length\<close> is 0, else \<open>attr(valueAttr)\<close>
        of each option, in order\<close>
  chapterItems :: "(jsstring option \<times> jsstring) list"
    \<comment> \<open>per chapter-list item: \<open>attr(linkAttr)\<close> and \<open>text()\<close> of its first link\<close>

text \<open>
  The network: the answer of the \<open>n\<close>-th GET issued (counted from 0) when it asks for
  \<open>url\<close>, an error (transport error, timeout, non-success status) or a body. The world
  records how many GETs were issued and the argument of every \<open>delay\<close> call, in order;
  \<open>None\<close> is \<open>delay(undefined)\<close>.
\<close>

type_synonym http = "nat \<Rightarrow> jsstring \<Rightarrow> js_error + page"

record world =
  requests :: nat
  waits :: "int option list"

record retryConfig =
  maxAttempts :: nat
  delays :: "int list"

text \<open>\<open>delays[attempt] || delays[delays.length - 1]\<close>: \<open>0\<close> and \<open>undefined\<close> are falsy.\<close>

definition delayMs :: "int list \<Rightarrow> nat \<Rightarrow> int option" where
  "delayMs ds attempt =
     (if attempt < length ds \<and> ds ! attempt \<noteq> 0 then Some (ds ! attempt)
      else if ds = [] then None
      else Some (last ds))"

fun decimal :: "nat \<Rightarrow> jsstring" where
  "decimal n = (if n < 10 then [48 + n] else decimal (n div 10) @ [48 + n mod 10])"

declare decimal.simps [simp del]

definition retryMessage :: "nat \<Rightarrow> jsstring \<Rightarrow> jsstring" where
  "retryMessage n m =
     [0x8BF7, 0x6C42, 0x5931, 0x8D25, 0xFF0C, 0x5DF2, 0x91CD, 0x8BD5, 0x20]
       @ decimal n @ [0x20, 0x6B21, 0x3A, 0x20] @ m"

text \<open>
  The \<open>for\<close> loop from \<open>attempt\<close> on. \<open>lastError\<close> is \<open>None\<close> while undefined; reading
  \<open>lastError.message\<close> then throws a TypeError (only when \<open>maxAttempts\<close> is 0).
\<close>

function fetchLoop ::
  "http \<Rightarrow> jsstring \<Rightarrow> retryConfig \<Rightarrow> nat \<Rightarrow> js_error option \<Rightarrow> world \<Rightarrow> (js_error + page) \<times> world" where
  "fetchLoop get url rc attempt lastError w =
     (if attempt < maxAttempts rc then
        (case get (requests w) url of
           Inr data \<Rightarrow> (Inr data, w\<lparr>requests := Suc (requests w)\<rparr>)
         | Inl e \<Rightarrow>
             fetchLoop get url rc (Suc attempt) (Some e)
               (if attempt + 1 < maxAttempts rc
                then w\<lparr>requests := Suc (requests w),
                       waits := waits w @ [delayMs (delays rc) attempt]\<rparr>
                else w\<lparr>requests := Suc (requests w)\<rparr>))
      else
        (case lastError of
           None \<Rightarrow>
             (Inl (TypeError (str ''Cannot read properties of undefined (reading 'message')'')), w)
         | Some e \<Rightarrow> (Inl (Error (retryMessage (maxAttempts rc) (message e))), w)))"
  by pat_completeness auto
termination
  by (relation "measure (\<lambda>(get, url, rc, attempt, lastError, w). maxAttempts rc - attempt)") auto

declare fetchLoop.simps [simp del]

definition fetchWithRetry :: "http \<Rightarrow> jsstring \<Rightarrow> retryConfig \<Rightarrow> world \<Rightarrow> (js_error + page) \<times> world" where
  "fetchWithRetry get url rc w = fetchLoop get url rc 0 None w"

section \<open>getChapterList (lines 192--269)\<close>

text \<open>
  The configuration, as far as the program's control flow reads it: the selectors that are
  tested for presence, the base URL and the retry settings. The other selectors only
  parametrise the queries that \<open>page\<close> answers.
\<close>

record config =
  baseUrl :: jsstring
  titleSelector :: "jsstring option"
  contentSelector :: "jsstring option"
  nextPageSelector :: "jsstring option"
  paginationSelector :: "jsstring option"
  concurrency :: int
  retry :: retryConfig

record chapterRef =
  url :: jsstring
  title :: jsstring

text \<open>The two accumulators of the scan: the array \<open>chapters\<close> (here \<open>chapterList\<close>) and the Set
  \<open>chapterSet\<close>, in insertion order.\<close>

record collected =
  chapterList :: "chapterRef list"
  chapterSet :: "jsstring list"

text \<open>\<open>fullUrl.split("?")[0]\<close>\<close>

definition urlKey :: "jsstring \<Rightarrow> jsstring" where
  "urlKey fullUrl = takeWhile (\<lambda>c. c \<noteq> 63) fullUrl"

text \<open>
  The \<open>each\<close> over the options of the pagination control (lines 212--220). It runs
  outside any \<open>try\<close>: a throw of \<open>resolveUrl\<close> leaves \<open>getChapterList\<close>.
\<close>

fun paginationUrls ::
  "url_parser \<Rightarrow> jsstring \<Rightarrow> jsstring option list \<Rightarrow> jsstring list \<Rightarrow> js_error + jsstring list" where
  "paginationUrls newURL base [] acc = Inr acc"
| "paginationUrls newURL base (v # vs) acc =
     (if truthy v then
        (case resolveUrl newURL v base of
           Inl e \<Rightarrow> Inl e
         | Inr fullUrl \<Rightarrow>
             (case fullUrl of
                None \<Rightarrow> paginationUrls newURL base vs acc
              | Some f \<Rightarrow>
                  if f \<noteq> [] \<and> f \<notin> set acc then paginationUrls newURL base vs (acc @ [f])
                  else paginationUrls newURL base vs acc))
      else paginationUrls newURL base vs acc)"

text \<open>
  The \<open>each\<close> over the items of one index page (lines 243--261). A throw inside the
  callback ends the scan of this page (it is caught at line 262); what the page added
  before stays. The first component is the error thrown, if any.
\<close>

fun scanItems ::
  "url_parser \<Rightarrow> jsstring \<Rightarrow> (jsstring option \<times> jsstring) list \<Rightarrow> collected
     \<Rightarrow> js_error option \<times> collected" where
  "scanItems newURL base [] st = (None, st)"
| "scanItems newURL base ((href, linkText) # items) st =
     (if truthy href \<and> trim linkText \<noteq> [] then
        (case resolveUrl newURL href base of
           Inl e \<Rightarrow> (Some e, st)
         | Inr fullUrl \<Rightarrow>
             (case fullUrl of
                None \<Rightarrow> (Some (TypeError (str ''Cannot read properties of null (reading 'split')'')), st)
              | Some f \<Rightarrow>
                  if urlKey f \<notin> set (chapterSet st) then
                    scanItems newURL base items
                      \<lparr>chapterList = chapterList st @ [\<lparr>url = f, title = trim linkText\<rparr>],
                       chapterSet = chapterSet st @ [urlKey f]\<rparr>
                  else scanItems newURL base items st))
      else scanItems newURL base items st)"

text \<open>The \<open>for\<close> over \<open>paginationUrls\<close> (lines 229--265), one \<open>try\<close> per page.\<close>

fun scanPages ::
  "url_parser \<Rightarrow> http \<Rightarrow> config \<Rightarrow> jsstring list \<Rightarrow> collected \<Rightarrow> world \<Rightarrow> collected \<times> world" where
  "scanPages newURL get cfg [] st w = (st, w)"
| "scanPages newURL get cfg (pageUrl # rest) st w =
     (case fetchWithRetry get pageUrl (retry cfg) w of
        (Inl e, w1) \<Rightarrow> scanPages newURL get cfg rest st w1
      | (Inr pg, w1) \<Rightarrow>
          scanPages newURL get cfg rest
            (snd (scanItems newURL (baseUrl cfg) (chapterItems pg) st)) w1)"

text \<open>
  \<open>paginationUrls\<close> as it stands before the scan (lines 202--224): the main URL, then
  the options of the pagination control when the selector is configured and matches. A
  throw of the selector queries leaves \<open>getChapterList\<close>, as a throw of \<open>resolveUrl\<close>
  does.
\<close>

definition indexPageUrls :: "url_parser \<Rightarrow> config \<Rightarrow> jsstring \<Rightarrow> page \<Rightarrow> js_error + jsstring list" where
  "indexPageUrls newURL cfg mainUrl mainHtml =
     (if truthy (paginationSelector cfg) then
        (case paginationControl mainHtml of
           Inl e \<Rightarrow> Inl e
         | Inr None \<Rightarrow> Inr [mainUrl]
         | Inr (Some values) \<Rightarrow> paginationUrls newURL (baseUrl cfg) values [mainUrl])
      else Inr [mainUrl])"

definition getChapterList ::
  "url_parser \<Rightarrow> http \<Rightarrow> jsstring \<Rightarrow> config \<Rightarrow> world \<Rightarrow> (js_error + chapterRef list) \<times> world" where
  "getChapterList newURL get mainUrl cfg w =
     (case fetchWithRetry get mainUrl (retry cfg) w of
        (Inl e, w1) \<Rightarrow> (Inl e, w1)
      | (Inr mainHtml, w1) \<Rightarrow>
          (case indexPageUrls newURL cfg mainUrl mainHtml of
             Inl e \<Rightarrow> (Inl e, w1)
           | Inr urls \<Rightarrow>
               (case scanPages newURL get cfg urls \<lparr>chapterList = [], chapterSet = []\<rparr> w1 of
                  (st, w2) \<Rightarrow> (Inr (chapterList st), w2))))"

subsection \<open>The links the index pages offer\<close>







section \<open>downloadChapterPages (lines 281--366)\<close>

definition isDigit :: "nat \<Rightarrow> bool" where
  "isDigit c = (48 \<le> c \<and> c \<le> 57)"

text \<open>
  \<open>/\d+_\d+\.html$/\<close>, read from the end of the string: \<open>.html\<close>, a non-empty run of
  digits, an underscore, a digit.
\<close>

definition matchesPagePattern :: "jsstring \<Rightarrow> bool" where
  "matchesPagePattern s =
     (take 5 (rev s) = rev (str ''.html'') \<and>
      takeWhile isDigit (drop 5 (rev s)) \<noteq> [] \<and>
      (case dropWhile isDigit (drop 5 (rev s)) of
         [] \<Rightarrow> False
       | c # v \<Rightarrow> c = 95 \<and> (case v of [] \<Rightarrow> False | d # _ \<Rightarrow> isDigit d)))"

definition isNextPage :: "jsstring \<Rightarrow> bool" where
  "isNextPage resolvedNextUrl = (95 \<in> set resolvedNextUrl \<and> matchesPagePattern resolvedNextUrl)"

text \<open>The \<open>for\<close> over \<open>$nextLinks\<close> (lines 327--355); the result is \<open>nextUrl\<close>.\<close>

fun findNextPage ::
  "url_parser \<Rightarrow> jsstring \<Rightarrow> jsstring \<Rightarrow> jsstring option list \<Rightarrow> js_error + jsstring option" where
  "findNextPage newURL base cur [] = Inr None"
| "findNextPage newURL base cur (nextHref # links) =
     (if truthy nextHref then
        (case resolveUrl newURL nextHref base of
           Inl e \<Rightarrow> Inl e
         | Inr resolvedNextUrl \<Rightarrow>
             (case resolvedNextUrl of
                None \<Rightarrow> findNextPage newURL base cur links
              | Some r \<Rightarrow>
                  if r \<noteq> [] \<and> r \<noteq> cur \<and> isNextPage r then Inr (Some r)
                  else findNextPage newURL base cur links))
      else findNextPage newURL base cur links)"

text \<open>
  What \<open>downloadChapterPages\<close> returns, the variables of its loop, and a ChapterResult:
  the last two extend the first by their own fields.
\<close>

record chapterPages =
  title :: jsstring
  content :: jsstring

record loopVars = chapterPages +
  currentUrl :: "jsstring option"
  visitedUrls :: "jsstring list"

record chapterResult = chapterPages +
  index :: nat
  success :: bool
  error :: "jsstring option"

definition unknownTitle :: jsstring where
  "unknownTitle = [0x672A, 0x77E5, 0x6807, 0x9898]"

definition unknownError :: jsstring where
  "unknownError = [0x672A, 0x77E5, 0x9519, 0x8BEF]"

text \<open>Lines 311--314: \<open>if (pageContent) content += (content ? "\n\n" : "") + pageContent\<close>.\<close>

definition appendPage :: "jsstring \<Rightarrow> jsstring \<Rightarrow> jsstring" where
  "appendPage acc pageContent =
     (if pageContent \<noteq> [] then acc @ (if acc \<noteq> [] then [10, 10] else []) @ pageContent
      else acc)"

text \<open>Lines 318--356: \<open>nextUrl\<close> of the page \<open>html\<close> fetched from \<open>cur\<close>.\<close>

definition nextPageUrl :: "url_parser \<Rightarrow> config \<Rightarrow> jsstring \<Rightarrow> page \<Rightarrow> js_error + jsstring option" where
  "nextPageUrl newURL cfg cur html =
     (if truthy (nextPageSelector cfg)
      then findNextPage newURL (baseUrl cfg) cur (nextHrefs html)
      else Inr None)"

text \<open>
  The \<open>while\<close> loop (lines 288--363). Nothing bounds the number of pages a server can
  chain, so the loop has fuel, one unit per evaluation of its condition: \<open>None\<close> is a
  loop that has not ended within the fuel. \<open>cleanTitle\<close> (lines 95--99, a regular
  expression replacement) is a parameter: what follows holds for every such function.
  Both exits through \<open>catch\<close> are a \<open>break\<close>; the second one (a throw of
  \<open>resolveUrl\<close>) comes after the page's title and text were stored.
\<close>

fun pageLoop ::
  "nat \<Rightarrow> url_parser \<Rightarrow> (jsstring \<Rightarrow> jsstring) \<Rightarrow> http \<Rightarrow> config \<Rightarrow> loopVars \<Rightarrow> world
     \<Rightarrow> (loopVars \<times> world) option" where
  "pageLoop 0 newURL cleanTitle get cfg s w = None"
| "pageLoop (Suc fuel) newURL cleanTitle get cfg s w =
     (case currentUrl s of
        None \<Rightarrow> Some (s, w)
      | Some u \<Rightarrow>
          if u = [] \<or> u \<in> set (visitedUrls s) then Some (s, w)
          else
            (case fetchWithRetry get u (retry cfg) w of
               (Inl e, w1) \<Rightarrow> Some (s\<lparr>visitedUrls := visitedUrls s @ [u]\<rparr>, w1)
             | (Inr html, w1) \<Rightarrow>
                 (let s1 = s\<lparr>visitedUrls := visitedUrls s @ [u]\<rparr>;
                      s2 = (if title s1 = [] \<and> truthy (titleSelector cfg)
                            then s1\<lparr>title := cleanTitle (trim (titleText html))\<rparr> else s1);
                      s3 = (if truthy (contentSelector cfg)
                            then s2\<lparr>content := appendPage (content s2) (trim (contentText html))\<rparr>
                            else s2)
                  in case nextPageUrl newURL cfg u html of
                       Inl e \<Rightarrow> Some (s3, w1)
                     | Inr nextUrl \<Rightarrow>
                         pageLoop fuel newURL cleanTitle get cfg (s3\<lparr>currentUrl := nextUrl\<rparr>) w1)))"

text \<open>
  For the statement of the join: the pages the loop reads, in the order it reads them (the
  recursion is the loop's own, keeping the pages only).
\<close>

fun pagesRead ::
  "nat \<Rightarrow> url_parser \<Rightarrow> http \<Rightarrow> config \<Rightarrow> jsstring option \<Rightarrow> jsstring list \<Rightarrow> world \<Rightarrow> page list" where
  "pagesRead 0 newURL get cfg cur visited w = []"
| "pagesRead (Suc fuel) newURL get cfg cur visited w =
     (case cur of
        None \<Rightarrow> []
      | Some u \<Rightarrow>
          if u = [] \<or> u \<in> set visited then []
          else
            (case fetchWithRetry get u (retry cfg) w of
               (Inl e, w1) \<Rightarrow> []
             | (Inr html, w1) \<Rightarrow>
                 html # (case nextPageUrl newURL cfg u html of
                           Inl e \<Rightarrow> []
                         | Inr nextUrl \<Rightarrow> pagesRead fuel newURL get cfg nextUrl (visited @ [u]) w1)))"

text \<open>Texts joined by a blank line, the empty ones left out.\<close>

fun joinTexts :: "jsstring list \<Rightarrow> jsstring" where
  "joinTexts [] = []"
| "joinTexts [t] = t"
| "joinTexts (t # ts) = t @ [10, 10] @ joinTexts ts"

definition joinPages :: "jsstring list \<Rightarrow> jsstring" where
  "joinPages texts = joinTexts (filter (\<lambda>t. t \<noteq> []) texts)"

text \<open>
  The function itself (lines 281--366). Every statement of it that can throw stands inside
  the \<open>try\<close> of the loop, so it has no throwing path of its own: when the loop ends it
  returns, with the sentinel title when none was found.
\<close>

definition downloadChapterPages ::
  "nat \<Rightarrow> url_parser \<Rightarrow> (jsstring \<Rightarrow> jsstring) \<Rightarrow> http \<Rightarrow> jsstring \<Rightarrow> config \<Rightarrow> world
     \<Rightarrow> ((js_error + chapterPages) \<times> world) option" where
  "downloadChapterPages fuel newURL cleanTitle get chapterUrl cfg w =
     (case pageLoop fuel newURL cleanTitle get cfg
             \<lparr>title = [], content = [], currentUrl = Some chapterUrl, visitedUrls = []\<rparr> w of
        None \<Rightarrow> None
      | Some (s, w') \<Rightarrow>
          Some (Inr \<lparr>title = (if title s \<noteq> [] then title s else unknownTitle),
                     content = trim (content s)\<rparr>, w'))"

section \<open>downloadAllChapters (lines 378--444)\<close>

text \<open>
  One task per chapter, the \<open>async\<close> function given to \<open>limit\<close> (lines 389--424). The
  tasks interleave on the event loop, so each one sees the network through an oracle of its
  own, \<open>nets index\<close>, that answers its own requests in their order: whatever the
  schedule and the \<open>p-limit\<close> gate do, they only choose these oracles. The result does not
  read the schedule: \<open>Promise.allSettled\<close> keeps the order of \<open>promises\<close>. A task whose
  loop has not ended is \<open>None\<close>, and then \<open>allSettled\<close> has not resolved either.
  The gate, \<open>pLimit(config.concurrency)\<close>, is the scheduler of the \<open>p-limit\<close> package;
  it decides when a task starts, not what it returns. What it does to the result is its
  check of the cap at line 379, before any task starts.
\<close>

datatype settled = Fulfilled chapterResult | Rejected "jsstring option"

definition chapterTask ::
  "nat \<Rightarrow> url_parser \<Rightarrow> (jsstring \<Rightarrow> jsstring) \<Rightarrow> http \<Rightarrow> config \<Rightarrow> chapterRef \<Rightarrow> nat
     \<Rightarrow> settled option" where
  "chapterTask fuel newURL cleanTitle get cfg chapter i =
     (case downloadChapterPages fuel newURL cleanTitle get (url chapter) cfg
             \<lparr>requests = 0, waits = []\<rparr> of
        None \<Rightarrow> None
      | Some (Inr p, w) \<Rightarrow>
          Some (Fulfilled
            \<lparr>title = (if title p \<noteq> [] then title p else chapterRef.title chapter),
             content = content p, index = i, success = True, error = None\<rparr>)
      | Some (Inl e, w) \<Rightarrow>
          Some (Fulfilled
            \<lparr>title = chapterRef.title chapter, content = [], index = i, success = False,
             error = Some (message e)\<rparr>))"

fun allSettled :: "'a option list \<Rightarrow> 'a list option" where
  "allSettled [] = Some []"
| "allSettled (p # ps) =
     (case p of
        None \<Rightarrow> None
      | Some r \<Rightarrow> (case allSettled ps of None \<Rightarrow> None | Some rs \<Rightarrow> Some (r # rs)))"

text \<open>The body of \<open>settledResults.forEach\<close> (lines 429--441).\<close>

fun pushResult :: "chapterRef list \<Rightarrow> nat \<times> settled \<Rightarrow> chapterResult" where
  "pushResult chapters (i, Fulfilled v) = v"
| "pushResult chapters (i, Rejected reason) =
     \<lparr>title = chapterRef.title (chapters ! i), content = [], index = i, success = False,
      error = Some (case reason of None \<Rightarrow> unknownError
                    | Some m \<Rightarrow> if m \<noteq> [] then m else unknownError)\<rparr>"

text \<open>
  \<open>pLimit(concurrency)\<close> (line 379) throws a TypeError unless the cap is an integer of
  at least 1: the error it throws, if any. Caps are integers here.
\<close>

definition pLimit :: "int \<Rightarrow> js_error option" where
  "pLimit cap =
     (if 1 \<le> cap then None
      else Some (TypeError (str ''Expected `concurrency` to be a number from 1 and up'')))"

text \<open>\<open>promises\<close> (line 388): the task of every chapter, with its position as \<open>index\<close>.\<close>

definition promises ::
  "nat \<Rightarrow> url_parser \<Rightarrow> (jsstring \<Rightarrow> jsstring) \<Rightarrow> (nat \<Rightarrow> http) \<Rightarrow> chapterRef list \<Rightarrow> config
     \<Rightarrow> settled option list" where
  "promises fuel newURL cleanTitle nets chapters cfg =
     map (\<lambda>(i, chapter). chapterTask fuel newURL cleanTitle (nets i) cfg chapter i)
       (enumerate 0 chapters)"

definition downloadAllChapters ::
  "nat \<Rightarrow> url_parser \<Rightarrow> (jsstring \<Rightarrow> jsstring) \<Rightarrow> (nat \<Rightarrow> http) \<Rightarrow> chapterRef list \<Rightarrow> config
     \<Rightarrow> (js_error + chapterResult list) option" where
  "downloadAllChapters fuel newURL cleanTitle nets chapters cfg =
     (case pLimit (concurrency cfg) of
        Some e \<Rightarrow> Some (Inl e)
      | None \<Rightarrow>
          (case allSettled (promises fuel newURL cleanTitle nets chapters cfg) of
             None \<Rightarrow> None
           | Some settledResults \<Rightarrow>
               Some (Inr (map (pushResult chapters) (enumerate 0 settledResults)))))"

section \<open>mergeToFile (lines 456--512)\<close>

definition rule80 :: jsstring where
  "rule80 = replicate 80 61"

definition banner :: "jsstring \<Rightarrow> jsstring" where
  "banner bookTitle = rule80 @ [10] @ bookTitle @ [10] @ rule80 @ [10, 10, 10]"

text \<open>What one turn of the loop over \<open>sortedChapters\<close> appends (lines 477--495).\<close>

definition chapterBlock :: "chapterResult \<Rightarrow> jsstring" where
  "chapterBlock chapter =
     (if success chapter \<and> content chapter \<noteq> [] then
        title chapter @ [10] @ content chapter @ [10, 10] @ rule80 @ [10, 10]
      else
        title chapter @ [10, 0x5B, 0x4E0B, 0x8F7D, 0x5931, 0x8D25, 0x3A, 0x20]
          @ (case error chapter of
               None \<Rightarrow> unknownError
             | Some m \<Rightarrow> if m \<noteq> [] then m else unknownError)
          @ [0x5D, 10, 10] @ rule80 @ [10, 10])"

text \<open>
  \<open>[...chapters].sort((a, b) => a.index - b.index)\<close>: the sort of an array is stable, as
  \<open>sort_key\<close> is.
\<close>

definition sortedChapters :: "chapterResult list \<Rightarrow> chapterResult list" where
  "sortedChapters chapters = sort_key index chapters"

text \<open>
  The text that \<open>mergeToFile\<close> hands to \<open>fs.writeFile\<close>. The write itself and the path
  of the file are the runtime's.
\<close>

definition mergeToFile :: "chapterResult list \<Rightarrow> jsstring \<Rightarrow> jsstring" where
  "mergeToFile chapters bookTitle =
     foldl (\<lambda>out chapter. out @ chapterBlock chapter) (banner bookTitle) (sortedChapters chapters)"

section \<open>Concrete inputs\<close>

text \<open>
  A site with two index pages: the main page, whose pagination control also names a page
  \<open>book_9\<close> that does not answer, and a second page that repeats chapter 2 with a
  query string and under another title. Every other URL answers 404. \<open>deadSite\<close> answers nothing at all.
\<close>

definition world0 :: world where
  "world0 = \<lparr>requests = 0, waits = []\<rparr>"

definition retry3 :: retryConfig where
  "retry3 = \<lparr>maxAttempts = 3, delays = [1000, 2000, 4000]\<rparr>"

definition siteConfig :: config where
  "siteConfig = \<lparr>baseUrl = str ''http://x/'', titleSelector = Some (str ''h1''),
                  contentSelector = Some (str ''#content''), nextPageSelector = Some (str ''a.next''),
                  paginationSelector = Some (str ''select''), concurrency = 15, retry = retry3\<rparr>"

definition blankPage :: page where
  "blankPage = \<lparr>titleText = [], contentText = [], nextHrefs = [],
                 paginationControl = Inr None, chapterItems = []\<rparr>"

definition indexA :: page where
  "indexA = blankPage\<lparr>
              paginationControl :=
                Inr (Some [Some (str ''http://x/book_9.html''), Some (str ''http://x/book_2.html'')]),
              chapterItems := [(Some (str ''http://x/1.html''), str ''Ch1''),
                               (Some (str ''http://x/2.html''), str ''Ch2'')]\<rparr>"

definition indexB :: page where
  "indexB = blankPage\<lparr>chapterItems := [(Some (str ''http://x/2.html?p=2''), str ''Ch2b''),
                                       (Some (str ''http://x/3.html''), str ''Ch3'')]\<rparr>"

text \<open>
  The chapters of the site. Chapter 1 does not answer. Chapter 2 has two pages; its first
  page also holds a link with no \<open>href\<close> and a link to itself, its second page a link
  that is not a next page. Chapter 3 has three pages, the last of which links back to the
  second.
\<close>

definition chapter2a :: page where
  "chapter2a = blankPage\<lparr>titleText := str ''Two'', contentText := str '' Part1 '',
                 nextHrefs := [None, Some (str ''http://x/2.html''), Some (str ''http://x/2_2.html'')]\<rparr>"

definition chapter2b :: page where
  "chapter2b = blankPage\<lparr>titleText := str ''Two again'', contentText := str ''Part2'',
                 nextHrefs := [Some (str ''http://x/index.html'')]\<rparr>"

definition chapter3a :: page where
  "chapter3a = blankPage\<lparr>titleText := str ''Three'', contentText := str ''a'',
                 nextHrefs := [Some (str ''http://x/3_2.html'')]\<rparr>"

definition chapter3b :: page where
  "chapter3b = blankPage\<lparr>contentText := str ''b'', nextHrefs := [Some (str ''http://x/3_3.html'')]\<rparr>"

definition chapter3c :: page where
  "chapter3c = blankPage\<lparr>contentText := str ''c'', nextHrefs := [Some (str ''http://x/3_2.html'')]\<rparr>"

definition bookSite :: http where
  "bookSite n u =
     (if u = str ''http://x/book.html'' then Inr indexA
      else if u = str ''http://x/book_2.html'' then Inr indexB
      else if u = str ''http://x/2.html'' then Inr chapter2a
      else if u = str ''http://x/2_2.html'' then Inr chapter2b
      else if u = str ''http://x/3.html'' then Inr chapter3a
      else if u = str ''http://x/3_2.html'' then Inr chapter3b
      else if u = str ''http://x/3_3.html'' then Inr chapter3c
      else Inl (Error (str ''404'')))"




text \<open>A site on which every page links to a longer URL of the shape of a next page.\<close>

definition trapSite :: http where
  "trapSite n u = Inr (blankPage\<lparr>nextHrefs := [Some (u @ str ''1_1.html'')]\<rparr>)"

text \<open>The discovered chapters of \<open>bookSite\<close>, and a \<open>cleanTitle\<close> that changes nothing.\<close>

definition bookChapters :: "chapterRef list" where
  "bookChapters = [\<lparr>url = str ''http://x/1.html'', title = str ''Ch1''\<rparr>,
                   \<lparr>url = str ''http://x/2.html'', title = str ''Ch2''\<rparr>,
                   \<lparr>url = str ''http://x/3.html'', title = str ''Ch3''\<rparr>]"

text \<open>Two chapters the first of which is on \<open>trapSite\<close>: task 0 sees it, task 1 \<open>bookSite\<close>.\<close>

definition trapChapters :: "chapterRef list" where
  "trapChapters = [\<lparr>url = str ''http://x/'', title = str ''Ch0''\<rparr>,
                   \<lparr>url = str ''http://x/2.html'', title = str ''Ch2''\<rparr>]"

definition trapNets :: "nat \<Rightarrow> http" where
  "trapNets i = (if i = 0 then trapSite else bookSite)"

definition keepTitle :: "jsstring \<Rightarrow> jsstring" where
  "keepTitle t = t"

text \<open>What the run on \<open>bookSite\<close> returns.\<close>

definition bookResults :: "chapterResult list" where
  "bookResults =
     [\<lparr>title = unknownTitle, content = [], index = 0, success = True, error = None\<rparr>,
      \<lparr>title = str ''Two'', content = str ''Part1'' @ [10, 10] @ str ''Part2'',
        index = 1, success = True, error = None\<rparr>,
      \<lparr>title = str ''Three'', content = str ''a'' @ [10, 10] @ str ''b'' @ [10, 10] @ str ''c'',
        index = 2, success = True, error = None\<rparr>]"

definition deadSite :: http where
  "deadSite n u = Inl (Error (str ''ECONNRESET''))"

text \<open>
  A URL parser that throws on every input. The examples hand it absolute URLs only, which
  \<open>resolveUrl\<close> returns without parsing, or a base URL without scheme, which the
  runtime's parser rejects as well.
\<close>

definition noParser :: url_parser where
  "noParser input base = Inl (TypeError (str ''Invalid URL''))"

text \<open>Three results of a run, the second one failed.\<close>

definition resultA :: chapterResult where
  "resultA = \<lparr>title = str ''A'', content = str ''a'', index = 0, success = True, error = None\<rparr>"

definition resultB :: chapterResult where
  "resultB = \<lparr>title = str ''B'', content = [], index = 1, success = False,
               error = Some (str ''timeout'')\<rparr>"

definition resultC :: chapterResult where
  "resultC = \<lparr>title = str ''C'', content = str ''c'', index = 2, success = True, error = None\<rparr>"

section \<open>URL resolution\<close>

text \<open>
  C10. A URL that starts with \<open>http://\<close> or \<open>https://\<close> is returned unchanged, whatever
  the base and whatever the URL parser does (it is not called, so a base that does not
  parse cannot throw); a null or empty URL gives null and no throw.
\<close>

theorem resolveUrl_boundary:
  "(startsWith u (str ''http://'') \<or> startsWith u (str ''https://'')
      \<longrightarrow> resolveUrl newURL (Some u) base = Inr (Some u))
   \<and> resolveUrl newURL None base = Inr None
   \<and> resolveUrl newURL (Some []) base = Inr None"
  by (auto simp: resolveUrl_def startsWith_def str_def)

theorem resolveUrl_boundary_witness:
  "startsWith (str ''https://a.b/c'') (str ''https://'')
   \<and> resolveUrl (\<lambda>x b. Inl (TypeError [])) (Some (str ''https://a.b/c'')) (str ''not a url'')
       = Inr (Some (str ''https://a.b/c''))
   \<and> resolveUrl (\<lambda>x b. Inl (TypeError [])) None (str ''not a url'') = Inr None
   \<and> resolveUrl (\<lambda>x b. Inl (TypeError [])) (Some []) (str ''not a url'') = Inr None"
proof -
  have h: "startsWith (str ''https://a.b/c'') (str ''https://'')"
    by (simp add: startsWith_def str_def)
  from resolveUrl_boundary [of "str ''https://a.b/c''" "\<lambda>x b. Inl (TypeError [])" "str ''not a url''"] h
  show ?thesis by blast
qed

section \<open>The merged document\<close>

lemma filter_same_key:
  "distinct (map f xs) \<Longrightarrow> k \<in> set xs \<Longrightarrow> filter (\<lambda>x. f k = f x) xs = [k]"
proof (induction xs)
  case Nil
  then show ?case by simp
next
  case (Cons a xs)
  show ?case
  proof (cases "k = a")
    case True
    have "filter (\<lambda>x. f a = f x) xs = []"
      using Cons.prems(1) by (auto simp: filter_empty_conv)
    with True show ?thesis by simp
  next
    case False
    with Cons.prems have kin: "k \<in> set xs" by simp
    from Cons.prems have dx: "distinct (map f xs)" and na: "f a \<notin> f ` set xs" by simp_all
    from kin na have "f k \<noteq> f a" by (metis imageI)
    with Cons.IH [OF dx kin] show ?thesis by simp
  qed
qed

lemma mset_singleton_list: "mset xs = {#k#} \<Longrightarrow> xs = [k]"
  by (cases xs) auto

text \<open>Sorting by a key with no duplicates undoes every permutation.\<close>

lemma sort_key_restores:
  assumes "sorted (map f ys)" and "distinct (map f ys)" and "mset xs = mset ys"
  shows "sort_key f xs = ys"
proof (rule properties_for_sort_key)
  show "mset ys = mset xs" using assms(3) by simp
  show "sorted (map f ys)" by (rule assms(1))
  fix k assume k: "k \<in> set ys"
  have ys: "filter (\<lambda>x. f k = f x) ys = [k]"
    using assms(2) k by (rule filter_same_key)
  have "mset (filter (\<lambda>x. f k = f x) xs) = mset (filter (\<lambda>x. f k = f x) ys)"
    using assms(3) by simp
  then have "filter (\<lambda>x. f k = f x) xs = [k]"
    using ys by (simp add: mset_singleton_list)
  with ys show "filter (\<lambda>x. f k = f x) ys = filter (\<lambda>x. f k = f x) xs" by simp
qed

lemma foldl_append_blocks:
  "foldl (\<lambda>out c. out @ g c) b cs = b @ concat (map g cs)"
  by (induction cs arbitrary: b) auto

text \<open>
  C1. Let \<open>results\<close> be the complete result set in discovery order (indices 0 to N-1)
  and \<open>arrived\<close> any permutation of it, the order in which the downloads completed. The
  merger sorts \<open>arrived\<close> back into \<open>results\<close>, and the document it writes is the banner
  followed by the chapter blocks in ascending index order: the same document for every
  arrival order.
\<close>

theorem mergeToFile_order_invariant:
  assumes "map index results = [0..<length results]"
    and "mset arrived = mset results"
  shows "sortedChapters arrived = results
       \<and> mergeToFile arrived bookTitle = banner bookTitle @ concat (map chapterBlock results)
       \<and> mergeToFile arrived bookTitle = mergeToFile results bookTitle"
proof -
  have s: "sorted (map index results)" and d: "distinct (map index results)"
    by (simp_all add: assms(1))
  have a: "sortedChapters arrived = results"
    unfolding sortedChapters_def using s d assms(2) by (rule sort_key_restores)
  have b: "sortedChapters results = results"
    unfolding sortedChapters_def using s d by (rule sort_key_restores) simp
  show ?thesis
    by (simp add: mergeToFile_def a b foldl_append_blocks)
qed

theorem mergeToFile_order_invariant_witness:
  "map index [resultA, resultB, resultC] = [0..<length [resultA, resultB, resultC]]
   \<and> mset [resultC, resultA, resultB] = mset [resultA, resultB, resultC]
   \<and> sortedChapters [resultC, resultA, resultB] = [resultA, resultB, resultC]
   \<and> mergeToFile [resultC, resultA, resultB] (str ''T'')
       = mergeToFile [resultA, resultB, resultC] (str ''T'')"
proof -
  have h1: "map index [resultA, resultB, resultC] = [0..<length [resultA, resultB, resultC]]"
    by (simp add: resultA_def resultB_def resultC_def upt_rec)
  have h2: "mset [resultC, resultA, resultB] = mset [resultA, resultB, resultC]"
    by (simp add: add_mset_commute)
  from mergeToFile_order_invariant [OF h1 h2, of "str ''T''"] h1 h2
  show ?thesis by blast
qed

section \<open>Retries\<close>

lemma fetchLoop_success:
  "attempt < maxAttempts rc \<Longrightarrow> get (requests w) u = Inr data \<Longrightarrow>
   fetchLoop get u rc attempt lastError w = (Inr data, w\<lparr>requests := Suc (requests w)\<rparr>)"
  by (subst fetchLoop.simps) simp

lemma fetchLoop_retry:
  "attempt + 1 < maxAttempts rc \<Longrightarrow> get (requests w) u = Inl e \<Longrightarrow>
   fetchLoop get u rc attempt lastError w =
     fetchLoop get u rc (Suc attempt) (Some e)
       (w\<lparr>requests := Suc (requests w), waits := waits w @ [delayMs (delays rc) attempt]\<rparr>)"
  by (subst fetchLoop.simps) simp

lemma fetchLoop_last_failure:
  "attempt + 1 = maxAttempts rc \<Longrightarrow> get (requests w) u = Inl e \<Longrightarrow>
   fetchLoop get u rc attempt lastError w =
     (Inl (Error (retryMessage (maxAttempts rc) (message e))), w\<lparr>requests := Suc (requests w)\<rparr>)"
  by (subst fetchLoop.simps, subst fetchLoop.simps) simp

lemma fetchWithRetry_first_attempt:
  "0 < maxAttempts rc \<Longrightarrow> get (requests w) u = Inr data \<Longrightarrow>
   fetchWithRetry get u rc w = (Inr data, w\<lparr>requests := Suc (requests w)\<rparr>)"
  by (simp add: fetchWithRetry_def fetchLoop_success)

text \<open>A body that is returned is a body that the network gave for this URL.\<close>

lemma fetchLoop_from_get:
  "fetchLoop get u rc attempt lastError w = (Inr pg, w1) \<Longrightarrow> \<exists>n. get n u = Inr pg"
proof (induction get u rc attempt lastError w rule: fetchLoop.induct)
  case (1 get u rc attempt lastError w)
  show ?case
  proof (cases "attempt < maxAttempts rc")
    case False
    with "1.prems" show ?thesis
      by (subst (asm) fetchLoop.simps) (simp split: option.splits)
  next
    case True
    show ?thesis
    proof (cases "get (requests w) u")
      case (Inr data)
      with True "1.prems" have "data = pg"
        by (subst (asm) fetchLoop.simps) simp
      with Inr show ?thesis by blast
    next
      case (Inl e)
      with True "1.prems" "1.IH" [OF True Inl] show ?thesis
        by (subst (asm) fetchLoop.simps) simp
    qed
  qed
qed

lemma fetchWithRetry_from_get:
  "fetchWithRetry get u rc w = (Inr pg, w1) \<Longrightarrow> \<exists>n. get n u = Inr pg"
  unfolding fetchWithRetry_def by (rule fetchLoop_from_get)

text \<open>
  \<open>k\<close> failed attempts, then a success: the value is returned after the waits
  \<open>delayMs\<close> of the attempts that failed, in their order.
\<close>

lemma fetchLoop_failures_then_success:
  assumes "attempt + k < maxAttempts rc"
    and "\<And>i. i < k \<Longrightarrow> get (requests w + i) u = Inl (errs i)"
    and "get (requests w + k) u = Inr data"
  shows "fetchLoop get u rc attempt lastError w =
           (Inr data, w\<lparr>requests := requests w + k + 1,
                         waits := waits w @ map (delayMs (delays rc)) [attempt..<attempt + k]\<rparr>)"
  using assms
proof (induction k arbitrary: attempt lastError w errs)
  case 0
  then show ?case by (simp add: fetchLoop_success)
next
  case (Suc k)
  from Suc.prems(2) [of 0] have g0: "get (requests w) u = Inl (errs 0)" by simp
  let ?w = "w\<lparr>requests := Suc (requests w), waits := waits w @ [delayMs (delays rc) attempt]\<rparr>"
  have step: "fetchLoop get u rc attempt lastError w
                = fetchLoop get u rc (Suc attempt) (Some (errs 0)) ?w"
    using Suc.prems(1) g0 by (simp add: fetchLoop_retry)
  have "fetchLoop get u rc (Suc attempt) (Some (errs 0)) ?w =
          (Inr data, ?w\<lparr>requests := requests ?w + k + 1,
                        waits := waits ?w @ map (delayMs (delays rc)) [Suc attempt..<Suc attempt + k]\<rparr>)"
  proof (rule Suc.IH [where errs = "\<lambda>i. errs (Suc i)"])
    show "Suc attempt + k < maxAttempts rc" using Suc.prems(1) by simp
    show "get (requests ?w + i) u = Inl (errs (Suc i))" if "i < k" for i
      using Suc.prems(2) [of "Suc i"] that by simp
    show "get (requests ?w + k) u = Inr data" using Suc.prems(3) by simp
  qed
  with step show ?case by (simp add: upt_rec [of attempt])
qed

text \<open>
  Every attempt fails: after \<open>maxAttempts\<close> attempts the operation fails with the message
  of the last error, having waited between the attempts only.
\<close>

lemma fetchLoop_all_failures:
  assumes "attempt + k = maxAttempts rc" and "0 < k"
    and "\<And>i. i < k \<Longrightarrow> get (requests w + i) u = Inl (errs i)"
  shows "fetchLoop get u rc attempt lastError w =
           (Inl (Error (retryMessage (maxAttempts rc) (message (errs (k - 1))))),
            w\<lparr>requests := requests w + k,
              waits := waits w @ map (delayMs (delays rc)) [attempt..<attempt + k - 1]\<rparr>)"
  using assms
proof (induction k arbitrary: attempt lastError w errs)
  case 0
  then show ?case by simp
next
  case (Suc k)
  from Suc.prems(3) [of 0] have g0: "get (requests w) u = Inl (errs 0)" by simp
  show ?case
  proof (cases "k = 0")
    case True
    with Suc.prems(1) g0 show ?thesis by (simp add: fetchLoop_last_failure)
  next
    case False
    let ?w = "w\<lparr>requests := Suc (requests w), waits := waits w @ [delayMs (delays rc) attempt]\<rparr>"
    have step: "fetchLoop get u rc attempt lastError w
                  = fetchLoop get u rc (Suc attempt) (Some (errs 0)) ?w"
      using Suc.prems(1) g0 False by (simp add: fetchLoop_retry)
    have "fetchLoop get u rc (Suc attempt) (Some (errs 0)) ?w =
            (Inl (Error (retryMessage (maxAttempts rc) (message (errs (Suc (k - 1)))))),
             ?w\<lparr>requests := requests ?w + k,
                 waits := waits ?w @ map (delayMs (delays rc)) [Suc attempt..<Suc attempt + k - 1]\<rparr>)"
    proof (rule Suc.IH [where errs = "\<lambda>i. errs (Suc i)"])
      show "Suc attempt + k = maxAttempts rc" using Suc.prems(1) by simp
      show "0 < k" using False by simp
      show "get (requests ?w + i) u = Inl (errs (Suc i))" if "i < k" for i
        using Suc.prems(3) [of "Suc i"] that by simp
    qed
    with step False show ?thesis by (simp add: upt_rec [of attempt])
  qed
qed

text \<open>The wait before the retry that follows attempt \<open>k\<close> (counted from 0).\<close>

lemma delayMs_in_range: "k < length ds \<Longrightarrow> ds ! k \<noteq> 0 \<Longrightarrow> delayMs ds k = Some (ds ! k)"
  by (simp add: delayMs_def)

lemma delayMs_clamped: "length ds \<le> k \<Longrightarrow> ds \<noteq> [] \<Longrightarrow> delayMs ds k = Some (last ds)"
  by (simp add: delayMs_def)

lemma delayMs_zero_entry: "k < length ds \<Longrightarrow> ds ! k = 0 \<Longrightarrow> delayMs ds k = Some (last ds)"
  by (auto simp: delayMs_def)

text \<open>
  With the default configuration, a request that fails twice and then succeeds returns
  the value after the waits 1000 and 2000, in that order.
\<close>

lemma fetchWithRetry_default_schedule:
  assumes "maxAttempts rc = 3" and "delays rc = [1000, 2000, 4000]"
    and "get (requests w) u = Inl e1"
    and "get (requests w + 1) u = Inl e2"
    and "get (requests w + 2) u = Inr data"
  shows "fetchWithRetry get u rc w =
           (Inr data, w\<lparr>requests := requests w + 3, waits := waits w @ [Some 1000, Some 2000]\<rparr>)"
  using assms
  by (simp add: fetchWithRetry_def fetchLoop_retry fetchLoop_success delayMs_def numeral_3_eq_3)

text \<open>
  C3. The wait before retry \<open>k\<close> is \<open>delays[k-1]\<close>, clamped to the last entry past the
  end of the list. The lemmas above give this schedule for the default configuration and
  for every entry that is not zero. An entry that is zero is falsy in
  \<open>delays[attempt] || delays[delays.length - 1]\<close> and is replaced by the last entry:
  with \<open>maxAttempts = 2\<close> and \<open>delays = [0, 1000]\<close>, a request whose first GET fails waits
  1000 ms before the retry, where the schedule says 0.
\<close>

theorem fetchWithRetry_zero_delay:
  "fetchWithRetry (\<lambda>n u. if n = 0 then Inl (Error (str ''timeout'')) else Inr blankPage)
     (str ''http://x/'') \<lparr>maxAttempts = 2, delays = [0, 1000]\<rparr> \<lparr>requests = 0, waits = []\<rparr>
   = (Inr blankPage, \<lparr>requests = 2, waits = [Some 1000]\<rparr>)"
  by (simp add: fetchWithRetry_def fetchLoop.simps delayMs_def)

section \<open>The chapter list\<close>

subsection \<open>First-seen deduplication\<close>






subsection \<open>The scan\<close>



text \<open>The canonical key is the URL up to its first question mark.\<close>

lemma urlKey_strips_query: "63 \<notin> set u \<Longrightarrow> urlKey (u @ 63 # query) = u"
  by (induction u) (simp_all add: urlKey_def)

subsection \<open>The example site\<close>

lemma resolveUrl_http:
  "startsWith u (str ''http://'') \<Longrightarrow> resolveUrl newURL (Some u) base = Inr (Some u)"
  by (auto simp: resolveUrl_def startsWith_def str_def)

lemma example_urls:
  "startsWith (str ''http://x/1.html'') (str ''http://'')"
  "startsWith (str ''http://x/2.html'') (str ''http://'')"
  "startsWith (str ''http://x/3.html'') (str ''http://'')"
  "startsWith (str ''http://x/book_9.html'') (str ''http://'')"
  "startsWith (str ''http://x/book_2.html'') (str ''http://'')"
  "startsWith (str ''http://x/2.html?p=2'') (str ''http://'')"
  "urlKey (str ''http://x/2.html?p=2'') = str ''http://x/2.html''"
  "urlKey (str ''http://x/1.html'') = str ''http://x/1.html''"
  "urlKey (str ''http://x/2.html'') = str ''http://x/2.html''"
  "urlKey (str ''http://x/3.html'') = str ''http://x/3.html''"
  "str ''http://x/1.html'' \<noteq> str ''http://x/2.html''"
  "str ''http://x/1.html'' \<noteq> str ''http://x/3.html''"
  "str ''http://x/2.html'' \<noteq> str ''http://x/3.html''"
  "str ''http://x/2.html'' \<noteq> str ''http://x/1.html''"
  "str ''http://x/3.html'' \<noteq> str ''http://x/1.html''"
  "str ''http://x/3.html'' \<noteq> str ''http://x/2.html''"
  by (simp_all add: startsWith_def urlKey_def str_def)

lemma example_truthy:
  "truthy (Some (str ''http://x/1.html''))" "truthy (Some (str ''http://x/2.html''))"
  "truthy (Some (str ''http://x/3.html''))" "truthy (Some (str ''http://x/book_9.html''))"
  "truthy (Some (str ''http://x/book_2.html''))" "truthy (Some (str ''select''))"
  "truthy (Some (str ''http://x/2.html?p=2''))"
  by (simp_all add: truthy_def str_def)

lemma example_titles:
  "trim (str ''Ch1'') = str ''Ch1''" "trim (str ''Ch2'') = str ''Ch2''"
  "trim (str ''Ch2b'') = str ''Ch2b''" "trim (str ''Ch3'') = str ''Ch3''"
  "str ''Ch1'' \<noteq> []" "str ''Ch2'' \<noteq> []" "str ''Ch2b'' \<noteq> []" "str ''Ch3'' \<noteq> []"
  by (simp_all add: trim_def str_def isWhiteSpace_def)

lemma bookSite_fetch:
  "fetchWithRetry bookSite (str ''http://x/book.html'') (retry siteConfig) w
     = (Inr indexA, w\<lparr>requests := Suc (requests w)\<rparr>)"
  "fetchWithRetry bookSite (str ''http://x/book_2.html'') (retry siteConfig) w
     = (Inr indexB, w\<lparr>requests := Suc (requests w)\<rparr>)"
  by (rule fetchWithRetry_first_attempt; simp add: siteConfig_def retry3_def bookSite_def str_def)+

lemma bookSite_missing:
  "fetchWithRetry bookSite (str ''http://x/book_9.html'') (retry siteConfig) w
     = (Inl (Error (retryMessage 3 (str ''404''))),
        w\<lparr>requests := requests w + 3, waits := waits w @ [Some 1000, Some 2000]\<rparr>)"
  by (simp add: fetchWithRetry_def fetchLoop.simps siteConfig_def retry3_def bookSite_def str_def
      delayMs_def)



lemma items_A:
  "scanItems noParser (baseUrl siteConfig) (chapterItems indexA) \<lparr>chapterList = [], chapterSet = []\<rparr>
     = (None, \<lparr>chapterList = [\<lparr>url = str ''http://x/1.html'', title = str ''Ch1''\<rparr>,
                              \<lparr>url = str ''http://x/2.html'', title = str ''Ch2''\<rparr>],
               chapterSet = [str ''http://x/1.html'', str ''http://x/2.html'']\<rparr>)"
  by (simp add: indexA_def blankPage_def example_truthy example_titles resolveUrl_http example_urls)

lemma items_B:
  "scanItems noParser (baseUrl siteConfig) (chapterItems indexB)
       \<lparr>chapterList = [\<lparr>url = str ''http://x/1.html'', title = str ''Ch1''\<rparr>,
                       \<lparr>url = str ''http://x/2.html'', title = str ''Ch2''\<rparr>],
        chapterSet = [str ''http://x/1.html'', str ''http://x/2.html'']\<rparr>
     = (None, \<lparr>chapterList = [\<lparr>url = str ''http://x/1.html'', title = str ''Ch1''\<rparr>,
                              \<lparr>url = str ''http://x/2.html'', title = str ''Ch2''\<rparr>,
                              \<lparr>url = str ''http://x/3.html'', title = str ''Ch3''\<rparr>],
               chapterSet = [str ''http://x/1.html'', str ''http://x/2.html'',
                             str ''http://x/3.html'']\<rparr>)"
  by (simp add: indexB_def blankPage_def example_truthy example_titles resolveUrl_http example_urls)

lemma indexPageUrls_A:
  "indexPageUrls noParser siteConfig (str ''http://x/book.html'') indexA
     = Inr [str ''http://x/book.html'', str ''http://x/book_9.html'', str ''http://x/book_2.html'']"
  by (simp add: indexPageUrls_def siteConfig_def indexA_def blankPage_def example_truthy
      resolveUrl_http example_urls)
     (simp add: str_def)





text \<open>
  The whole collector on the example site: the page \<open>book_9\<close> is given up after three
  attempts and the two other pages give the list.
\<close>

lemma getChapterList_example:
  "getChapterList noParser bookSite (str ''http://x/book.html'') siteConfig world0
   = (Inr [\<lparr>url = str ''http://x/1.html'', title = str ''Ch1''\<rparr>,
           \<lparr>url = str ''http://x/2.html'', title = str ''Ch2''\<rparr>,
           \<lparr>url = str ''http://x/3.html'', title = str ''Ch3''\<rparr>],
      \<lparr>requests = 6, waits = [Some 1000, Some 2000]\<rparr>)"
  by (simp add: getChapterList_def bookSite_fetch bookSite_missing indexPageUrls_A items_A items_B
      world0_def)

subsection \<open>Deduplication\<close>




subsection \<open>Index pages that do not answer\<close>

text \<open>
  A pagination selector that does not parse: the query of line 206 throws outside any
  \<open>try\<close>, after the main page was fetched.
\<close>

lemma getChapterList_selector_throws:
  "fetchWithRetry get mainUrl (retry cfg) w = (Inr mainHtml, w1) \<Longrightarrow>
   truthy (paginationSelector cfg) \<Longrightarrow> paginationControl mainHtml = Inl e \<Longrightarrow>
   getChapterList newURL get mainUrl cfg w = (Inl e, w1)"
  by (simp add: getChapterList_def indexPageUrls_def)

text \<open>
  C5, as the code has it. Inside the scan, an index page whose fetch fails after its
  retries is skipped and the scan goes on with the remaining pages; this holds for the
  main URL too when the scan fetches it again. So once the list of index pages stands,
  \<open>getChapterList\<close> returns what the scan collected, a partial list when pages failed.
  The first fetch of the main URL, which the pagination is read from, is outside the scan:
  when it fails, its error is the error of \<open>getChapterList\<close>.
\<close>

theorem getChapterList_page_failures:
  "(fetchWithRetry get pageUrl (retry cfg) w = (Inl e, w1)
      \<longrightarrow> scanPages newURL get cfg (pageUrl # rest) st w = scanPages newURL get cfg rest st w1)
   \<and> (fetchWithRetry get mainUrl (retry cfg) w0 = (Inr mainHtml, w2)
        \<and> indexPageUrls newURL cfg mainUrl mainHtml = Inr urls
      \<longrightarrow> getChapterList newURL get mainUrl cfg w0
            = (Inr (chapterList (fst (scanPages newURL get cfg urls
                                        \<lparr>chapterList = [], chapterSet = []\<rparr> w2))),
               snd (scanPages newURL get cfg urls \<lparr>chapterList = [], chapterSet = []\<rparr> w2)))
   \<and> (fetchWithRetry get mainUrl (retry cfg) w0 = (Inl e, w1)
      \<longrightarrow> getChapterList newURL get mainUrl cfg w0 = (Inl e, w1))"
proof (intro conjI impI)
  assume "fetchWithRetry get pageUrl (retry cfg) w = (Inl e, w1)"
  then show "scanPages newURL get cfg (pageUrl # rest) st w = scanPages newURL get cfg rest st w1"
    by simp
next
  assume "fetchWithRetry get mainUrl (retry cfg) w0 = (Inr mainHtml, w2)
          \<and> indexPageUrls newURL cfg mainUrl mainHtml = Inr urls"
  then show "getChapterList newURL get mainUrl cfg w0
            = (Inr (chapterList (fst (scanPages newURL get cfg urls
                                        \<lparr>chapterList = [], chapterSet = []\<rparr> w2))),
               snd (scanPages newURL get cfg urls \<lparr>chapterList = [], chapterSet = []\<rparr> w2))"
    by (simp add: getChapterList_def split: prod.splits)
next
  assume "fetchWithRetry get mainUrl (retry cfg) w0 = (Inl e, w1)"
  then show "getChapterList newURL get mainUrl cfg w0 = (Inl e, w1)"
    by (simp add: getChapterList_def)
qed

theorem getChapterList_page_failures_witness:
  "fetchWithRetry bookSite (str ''http://x/book_9.html'') (retry siteConfig) world0
     = (Inl (Error (retryMessage 3 (str ''404''))), \<lparr>requests = 3, waits = [Some 1000, Some 2000]\<rparr>)
   \<and> scanPages noParser bookSite siteConfig [str ''http://x/book_9.html'', str ''http://x/book_2.html'']
        \<lparr>chapterList = [], chapterSet = []\<rparr> world0
     = scanPages noParser bookSite siteConfig [str ''http://x/book_2.html'']
        \<lparr>chapterList = [], chapterSet = []\<rparr> \<lparr>requests = 3, waits = [Some 1000, Some 2000]\<rparr>
   \<and> fetchWithRetry bookSite (str ''http://x/book.html'') (retry siteConfig) world0
     = (Inr indexA, \<lparr>requests = 1, waits = []\<rparr>)
   \<and> indexPageUrls noParser siteConfig (str ''http://x/book.html'') indexA
     = Inr [str ''http://x/book.html'', str ''http://x/book_9.html'', str ''http://x/book_2.html'']
   \<and> fst (getChapterList noParser bookSite (str ''http://x/book.html'') siteConfig world0)
     = Inr (chapterList (fst (scanPages noParser bookSite siteConfig
              [str ''http://x/book.html'', str ''http://x/book_9.html'', str ''http://x/book_2.html'']
              \<lparr>chapterList = [], chapterSet = []\<rparr> \<lparr>requests = 1, waits = []\<rparr>)))
   \<and> getChapterList noParser bookSite (str ''http://x/book_9.html'') siteConfig world0
     = (Inl (Error (retryMessage 3 (str ''404''))), \<lparr>requests = 3, waits = [Some 1000, Some 2000]\<rparr>)"
proof -
  have f: "fetchWithRetry bookSite (str ''http://x/book_9.html'') (retry siteConfig) world0
     = (Inl (Error (retryMessage 3 (str ''404''))), \<lparr>requests = 3, waits = [Some 1000, Some 2000]\<rparr>)"
    by (simp add: bookSite_missing world0_def)
  have m: "fetchWithRetry bookSite (str ''http://x/book.html'') (retry siteConfig) world0
     = (Inr indexA, \<lparr>requests = 1, waits = []\<rparr>)"
    by (simp add: bookSite_fetch world0_def)
  note i = indexPageUrls_A
  from getChapterList_page_failures [where get = bookSite and cfg = siteConfig and newURL = noParser
      and pageUrl = "str ''http://x/book_9.html''" and w = world0
      and e = "Error (retryMessage 3 (str ''404''))"
      and ?w1.0 = "\<lparr>requests = 3, waits = [Some 1000, Some 2000]\<rparr>"
      and rest = "[str ''http://x/book_2.html'']" and st = "\<lparr>chapterList = [], chapterSet = []\<rparr>"
      and mainUrl = "str ''http://x/book.html''" and ?w0.0 = world0 and mainHtml = indexA
      and ?w2.0 = "\<lparr>requests = 1, waits = []\<rparr>"
      and urls = "[str ''http://x/book.html'', str ''http://x/book_9.html'', str ''http://x/book_2.html'']"]
    f m i
  have a: "scanPages noParser bookSite siteConfig [str ''http://x/book_9.html'', str ''http://x/book_2.html'']
        \<lparr>chapterList = [], chapterSet = []\<rparr> world0
     = scanPages noParser bookSite siteConfig [str ''http://x/book_2.html'']
        \<lparr>chapterList = [], chapterSet = []\<rparr> \<lparr>requests = 3, waits = [Some 1000, Some 2000]\<rparr>"
    and b: "getChapterList noParser bookSite (str ''http://x/book.html'') siteConfig world0
     = (Inr (chapterList (fst (scanPages noParser bookSite siteConfig
              [str ''http://x/book.html'', str ''http://x/book_9.html'', str ''http://x/book_2.html'']
              \<lparr>chapterList = [], chapterSet = []\<rparr> \<lparr>requests = 1, waits = []\<rparr>))),
        snd (scanPages noParser bookSite siteConfig
              [str ''http://x/book.html'', str ''http://x/book_9.html'', str ''http://x/book_2.html'']
              \<lparr>chapterList = [], chapterSet = []\<rparr> \<lparr>requests = 1, waits = []\<rparr>))"
    by blast+
  from getChapterList_page_failures [where get = bookSite and cfg = siteConfig and newURL = noParser
      and e = "Error (retryMessage 3 (str ''404''))"
      and ?w1.0 = "\<lparr>requests = 3, waits = [Some 1000, Some 2000]\<rparr>"
      and mainUrl = "str ''http://x/book_9.html''" and ?w0.0 = world0] f
  have c: "getChapterList noParser bookSite (str ''http://x/book_9.html'') siteConfig world0
     = (Inl (Error (retryMessage 3 (str ''404''))), \<lparr>requests = 3, waits = [Some 1000, Some 2000]\<rparr>)"
    by blast
  from b have b': "fst (getChapterList noParser bookSite (str ''http://x/book.html'') siteConfig world0)
     = Inr (chapterList (fst (scanPages noParser bookSite siteConfig
              [str ''http://x/book.html'', str ''http://x/book_9.html'', str ''http://x/book_2.html'']
              \<lparr>chapterList = [], chapterSet = []\<rparr> \<lparr>requests = 1, waits = []\<rparr>)))"
    by simp
  from f a m i b' c show ?thesis by blast
qed

text \<open>
  A site that answers nothing: the first fetch of the main index URL fails after its three
  attempts, and \<open>getChapterList\<close> ends with that error instead of a list.
\<close>

theorem getChapterList_main_failure:
  "getChapterList noParser deadSite (str ''http://x/book.html'') siteConfig world0
   = (Inl (Error (retryMessage 3 (str ''ECONNRESET''))),
      \<lparr>requests = 3, waits = [Some 1000, Some 2000]\<rparr>)"
  by (simp add: getChapterList_def fetchWithRetry_def fetchLoop.simps siteConfig_def retry3_def
      deadSite_def world0_def delayMs_def)

section \<open>The page-following loop\<close>

subsection \<open>Termination on a finite set of URLs\<close>

lemma pageLoop_visited_stops:
  "currentUrl s = Some u \<Longrightarrow> u \<in> set (visitedUrls s) \<Longrightarrow>
   pageLoop (Suc fuel) newURL cleanTitle get cfg s w = Some (s, w)"
  by simp

lemma pageLoop_ends:
  assumes fin: "finite U"
    and closed: "\<And>n u pg v. u \<in> U \<Longrightarrow> get n u = Inr pg \<Longrightarrow>
                   nextPageUrl newURL cfg u pg = Inr (Some v) \<Longrightarrow> v \<in> U"
    and "set (visitedUrls s) \<subseteq> U" and "distinct (visitedUrls s)"
    and "\<And>u. currentUrl s = Some u \<Longrightarrow> u \<in> U"
    and "card U - length (visitedUrls s) < fuel"
  shows "\<exists>s' w'. pageLoop fuel newURL cleanTitle get cfg s w = Some (s', w')
           \<and> set (visitedUrls s') \<subseteq> U \<and> distinct (visitedUrls s')"
  using assms(3-)
proof (induction fuel arbitrary: s w)
  case 0
  then show ?case by simp
next
  case (Suc fuel)
  show ?case
  proof (cases "currentUrl s")
    case None
    with Suc.prems show ?thesis by simp
  next
    case (Some u)
    show ?thesis
    proof (cases "u = [] \<or> u \<in> set (visitedUrls s)")
      case True
      with Some Suc.prems show ?thesis by auto
    next
      case False
      from Some Suc.prems(3) have uU: "u \<in> U" by simp
      from False have fresh: "u \<notin> set (visitedUrls s)" by simp
      have sub: "set (visitedUrls s @ [u]) \<subseteq> U" using Suc.prems(1) uU by simp
      have dist: "distinct (visitedUrls s @ [u])" using Suc.prems(2) fresh by simp
      have "card (set (visitedUrls s @ [u])) \<le> card U"
        using fin sub by (rule card_mono)
      then have len: "Suc (length (visitedUrls s)) \<le> card U"
        using dist by (simp add: distinct_card del: distinct_append set_append)
      obtain r w1 where f: "fetchWithRetry get u (retry cfg) w = (r, w1)"
        by (cases "fetchWithRetry get u (retry cfg) w")
      show ?thesis
      proof (cases r)
        case (Inl e)
        with Some False f sub dist show ?thesis by simp
      next
        case (Inr html)
        from f Inr obtain n where g: "get n u = Inr html"
          using fetchWithRetry_from_get by blast
        define s3 where "s3 =
          (let s1 = s\<lparr>visitedUrls := visitedUrls s @ [u]\<rparr>;
               s2 = (if title s1 = [] \<and> truthy (titleSelector cfg)
                     then s1\<lparr>title := cleanTitle (trim (titleText html))\<rparr> else s1)
           in (if truthy (contentSelector cfg)
               then s2\<lparr>content := appendPage (content s2) (trim (contentText html))\<rparr>
               else s2))"
        have v3: "visitedUrls s3 = visitedUrls s @ [u]"
          by (simp add: s3_def Let_def)
        show ?thesis
        proof (cases "nextPageUrl newURL cfg u html")
          case (Inl e)
          have "pageLoop (Suc fuel) newURL cleanTitle get cfg s w = Some (s3, w1)"
            using Some False f Inr Inl by (simp add: s3_def Let_def)
          with v3 sub dist show ?thesis by simp
        next
          case nxt: (Inr nextUrl)
          have step: "pageLoop (Suc fuel) newURL cleanTitle get cfg s w
                      = pageLoop fuel newURL cleanTitle get cfg (s3\<lparr>currentUrl := nextUrl\<rparr>) w1"
            using Some False f Inr nxt by (simp add: s3_def Let_def)
          have "\<exists>s' w'. pageLoop fuel newURL cleanTitle get cfg (s3\<lparr>currentUrl := nextUrl\<rparr>) w1
                          = Some (s', w')
                  \<and> set (visitedUrls s') \<subseteq> U \<and> distinct (visitedUrls s')"
          proof (rule Suc.IH)
            show "set (visitedUrls (s3\<lparr>currentUrl := nextUrl\<rparr>)) \<subseteq> U"
              using sub v3 by simp
            show "distinct (visitedUrls (s3\<lparr>currentUrl := nextUrl\<rparr>))"
              using dist v3 by simp
            show "v \<in> U" if "currentUrl (s3\<lparr>currentUrl := nextUrl\<rparr>) = Some v" for v
              using that closed [OF uU g] nxt by simp
            show "card U - length (visitedUrls (s3\<lparr>currentUrl := nextUrl\<rparr>)) < fuel"
              using Suc.prems(4) len v3 by simp
          qed
          with step show ?thesis by simp
        qed
      qed
    qed
  qed
qed

lemma pageLoop_more_fuel:
  "pageLoop fuel newURL cleanTitle get cfg s w = Some r \<Longrightarrow>
   pageLoop (fuel + k) newURL cleanTitle get cfg s w = Some r"
proof (induction fuel arbitrary: s w)
  case 0
  then show ?case by simp
next
  case (Suc fuel)
  then show ?case
    by (auto simp: Let_def split: option.splits prod.splits sum.splits if_splits)
qed

text \<open>A fetch that fails ends the loop; the title and the content collected so far stay.\<close>

lemma pageLoop_fetch_error:
  "currentUrl s = Some u \<Longrightarrow> u \<noteq> [] \<Longrightarrow> u \<notin> set (visitedUrls s) \<Longrightarrow>
   fetchWithRetry get u (retry cfg) w = (Inl e, w1) \<Longrightarrow>
   pageLoop (Suc fuel) newURL cleanTitle get cfg s w = Some (s\<lparr>visitedUrls := visitedUrls s @ [u]\<rparr>, w1)"
  by simp

subsection \<open>A site without end\<close>

lemma isNextPage_trap: "isNextPage (u @ str ''1_1.html'')"
  by (simp add: isNextPage_def matchesPagePattern_def str_def isDigit_def)

lemma startsWith_append:
  assumes "startsWith u p"
  shows "startsWith (u @ v) p"
proof -
  from assms have t: "take (length p) u = p" by (simp add: startsWith_def)
  then have "length (take (length p) u) = length p" by simp
  then have "length p \<le> length u" by simp
  with t show ?thesis by (simp add: startsWith_def)
qed

lemma trapSite_next:
  assumes "startsWith u (str ''http://'')"
  shows "nextPageUrl noParser siteConfig u (blankPage\<lparr>nextHrefs := [Some (u @ str ''1_1.html'')]\<rparr>)
           = Inr (Some (u @ str ''1_1.html''))"
proof -
  have t: "truthy (nextPageSelector siteConfig)"
    by (simp add: siteConfig_def truthy_def str_def)
  have ne: "u @ str ''1_1.html'' \<noteq> []" "u @ str ''1_1.html'' \<noteq> u"
    by (simp_all add: str_def)
  then have t2: "truthy (Some (u @ str ''1_1.html''))"
    by (simp add: truthy_def)
  have r: "resolveUrl noParser (Some (u @ str ''1_1.html'')) (baseUrl siteConfig)
             = Inr (Some (u @ str ''1_1.html''))"
    using assms by (intro resolveUrl_http startsWith_append)
  show ?thesis
    using ne by (simp add: nextPageUrl_def t t2 r isNextPage_trap blankPage_def)
qed

lemma trapSite_never_ends:
  assumes "currentUrl s = Some u" and "startsWith u (str ''http://'')"
    and "\<forall>v \<in> set (visitedUrls s). length v < length u"
  shows "pageLoop fuel noParser cleanTitle trapSite siteConfig s w = None"
  using assms
proof (induction fuel arbitrary: s u w)
  case 0
  then show ?case by simp
next
  case (Suc fuel)
  let ?pg = "blankPage\<lparr>nextHrefs := [Some (u @ str ''1_1.html'')]\<rparr>"
  from Suc.prems(2) have ne: "u \<noteq> []" by (auto simp: startsWith_def str_def)
  from Suc.prems(3) have fresh: "u \<notin> set (visitedUrls s)" by auto
  have f: "fetchWithRetry trapSite u (retry siteConfig) w = (Inr ?pg, w\<lparr>requests := Suc (requests w)\<rparr>)"
    by (rule fetchWithRetry_first_attempt) (simp_all add: siteConfig_def retry3_def trapSite_def)
  have n: "nextPageUrl noParser siteConfig u ?pg = Inr (Some (u @ str ''1_1.html''))"
    using Suc.prems(2) by (rule trapSite_next)
  define s3 where "s3 =
    (let s1 = s\<lparr>visitedUrls := visitedUrls s @ [u]\<rparr>;
         s2 = (if title s1 = [] \<and> truthy (titleSelector siteConfig)
               then s1\<lparr>title := cleanTitle (trim (titleText ?pg))\<rparr> else s1)
     in (if truthy (contentSelector siteConfig)
         then s2\<lparr>content := appendPage (content s2) (trim (contentText ?pg))\<rparr>
         else s2))"
  have v3: "visitedUrls s3 = visitedUrls s @ [u]"
    by (simp add: s3_def Let_def)
  have step: "pageLoop (Suc fuel) noParser cleanTitle trapSite siteConfig s w
              = pageLoop fuel noParser cleanTitle trapSite siteConfig
                  (s3\<lparr>currentUrl := Some (u @ str ''1_1.html'')\<rparr>) (w\<lparr>requests := Suc (requests w)\<rparr>)"
    using Suc.prems(1) ne fresh by (simp add: f n s3_def Let_def)
  have "pageLoop fuel noParser cleanTitle trapSite siteConfig
          (s3\<lparr>currentUrl := Some (u @ str ''1_1.html'')\<rparr>) (w\<lparr>requests := Suc (requests w)\<rparr>) = None"
  proof (rule Suc.IH)
    show "currentUrl (s3\<lparr>currentUrl := Some (u @ str ''1_1.html'')\<rparr>) = Some (u @ str ''1_1.html'')"
      by simp
    show "startsWith (u @ str ''1_1.html'') (str ''http://'')"
      using Suc.prems(2) by (rule startsWith_append)
    show "\<forall>v \<in> set (visitedUrls (s3\<lparr>currentUrl := Some (u @ str ''1_1.html'')\<rparr>)).
            length v < length (u @ str ''1_1.html'')"
      using Suc.prems(3) by (auto simp: v3 str_def)
  qed
  with step show ?case by simp
qed

subsection \<open>The chapters of the example site\<close>

lemma bookSite_at:
  "bookSite n (str ''http://x/1.html'') = Inl (Error (str ''404''))"
  "bookSite n (str ''http://x/2.html'') = Inr chapter2a"
  "bookSite n (str ''http://x/2_2.html'') = Inr chapter2b"
  "bookSite n (str ''http://x/3.html'') = Inr chapter3a"
  "bookSite n (str ''http://x/3_2.html'') = Inr chapter3b"
  "bookSite n (str ''http://x/3_3.html'') = Inr chapter3c"
  by (simp_all add: bookSite_def str_def)

lemma retry_siteConfig: "maxAttempts (retry siteConfig) = 3" "delays (retry siteConfig) = [1000, 2000, 4000]"
  by (simp_all add: siteConfig_def retry3_def)

lemma chapter_fetch:
  "fetchWithRetry bookSite (str ''http://x/2.html'') (retry siteConfig) w
     = (Inr chapter2a, w\<lparr>requests := Suc (requests w)\<rparr>)"
  "fetchWithRetry bookSite (str ''http://x/2_2.html'') (retry siteConfig) w
     = (Inr chapter2b, w\<lparr>requests := Suc (requests w)\<rparr>)"
  "fetchWithRetry bookSite (str ''http://x/3.html'') (retry siteConfig) w
     = (Inr chapter3a, w\<lparr>requests := Suc (requests w)\<rparr>)"
  "fetchWithRetry bookSite (str ''http://x/3_2.html'') (retry siteConfig) w
     = (Inr chapter3b, w\<lparr>requests := Suc (requests w)\<rparr>)"
  "fetchWithRetry bookSite (str ''http://x/3_3.html'') (retry siteConfig) w
     = (Inr chapter3c, w\<lparr>requests := Suc (requests w)\<rparr>)"
  by (rule fetchWithRetry_first_attempt; simp add: retry_siteConfig bookSite_at)+

lemma chapter1_fetch:
  "fetchWithRetry bookSite (str ''http://x/1.html'') (retry siteConfig) w
     = (Inl (Error (retryMessage 3 (str ''404''))),
        w\<lparr>requests := requests w + 3, waits := waits w @ [Some 1000, Some 2000]\<rparr>)"
  by (simp add: fetchWithRetry_def fetchLoop.simps retry_siteConfig bookSite_at delayMs_def)

lemma chapter_urls:
  "startsWith (str ''http://x/2.html'') (str ''http://'')"
  "startsWith (str ''http://x/2_2.html'') (str ''http://'')"
  "startsWith (str ''http://x/3_2.html'') (str ''http://'')"
  "startsWith (str ''http://x/3_3.html'') (str ''http://'')"
  "startsWith (str ''http://x/index.html'') (str ''http://'')"
  "isNextPage (str ''http://x/2_2.html'')"
  "isNextPage (str ''http://x/3_2.html'')"
  "isNextPage (str ''http://x/3_3.html'')"
  "\<not> isNextPage (str ''http://x/index.html'')"
  by (simp_all add: startsWith_def isNextPage_def matchesPagePattern_def isDigit_def str_def)

lemma chapter_next:
  "nextPageUrl noParser siteConfig (str ''http://x/2.html'') chapter2a = Inr (Some (str ''http://x/2_2.html''))"
  "nextPageUrl noParser siteConfig (str ''http://x/2_2.html'') chapter2b = Inr None"
  "nextPageUrl noParser siteConfig (str ''http://x/3.html'') chapter3a = Inr (Some (str ''http://x/3_2.html''))"
  "nextPageUrl noParser siteConfig (str ''http://x/3_2.html'') chapter3b = Inr (Some (str ''http://x/3_3.html''))"
  "nextPageUrl noParser siteConfig (str ''http://x/3_3.html'') chapter3c = Inr (Some (str ''http://x/3_2.html''))"
  by (simp_all add: nextPageUrl_def siteConfig_def chapter2a_def chapter2b_def chapter3a_def
      chapter3b_def chapter3c_def blankPage_def truthy_def resolveUrl_http chapter_urls)
     (simp_all add: str_def)

lemma chapter_texts:
  "trim (str '' Part1 '') = str ''Part1''" "trim (str ''Part2'') = str ''Part2''"
  "trim (str ''a'') = str ''a''" "trim (str ''b'') = str ''b''" "trim (str ''c'') = str ''c''"
  "trim (str ''Two'') = str ''Two''" "trim (str ''Three'') = str ''Three''"
  "trim [] = []"
  "str ''Part1'' \<noteq> []" "str ''Part2'' \<noteq> []" "str ''a'' \<noteq> []" "str ''b'' \<noteq> []"
  "str ''c'' \<noteq> []" "str ''Two'' \<noteq> []" "str ''Three'' \<noteq> []"
  by (simp_all add: trim_def str_def isWhiteSpace_def)

lemma chapter_selectors:
  "truthy (titleSelector siteConfig)" "truthy (contentSelector siteConfig)"
  by (simp_all add: siteConfig_def truthy_def str_def)

lemma chapter_fields:
  "titleText chapter2a = str ''Two''" "contentText chapter2a = str '' Part1 ''"
  "titleText chapter2b = str ''Two again''" "contentText chapter2b = str ''Part2''"
  "titleText chapter3a = str ''Three''" "contentText chapter3a = str ''a''"
  "contentText chapter3b = str ''b''" "contentText chapter3c = str ''c''"
  "titleText chapter3b = []" "titleText chapter3c = []"
  by (simp_all add: chapter2a_def chapter2b_def chapter3a_def chapter3b_def chapter3c_def blankPage_def)

lemma chapter_urls_distinct:
  "str ''http://x/1.html'' \<noteq> []" "str ''http://x/2.html'' \<noteq> []" "str ''http://x/3.html'' \<noteq> []"
  "str ''http://x/2_2.html'' \<noteq> []" "str ''http://x/3_2.html'' \<noteq> []" "str ''http://x/3_3.html'' \<noteq> []"
  "str ''http://x/2_2.html'' \<noteq> str ''http://x/2.html''"
  "str ''http://x/3_2.html'' \<noteq> str ''http://x/3.html''"
  "str ''http://x/3_3.html'' \<noteq> str ''http://x/3.html''"
  "str ''http://x/3_3.html'' \<noteq> str ''http://x/3_2.html''"
  "str ''http://x/3.html'' \<noteq> str ''http://x/3_2.html''"
  "str ''http://x/3.html'' \<noteq> str ''http://x/3_3.html''"
  "str ''http://x/3_2.html'' \<noteq> str ''http://x/3_3.html''"
  by (simp_all add: str_def)

lemma chapter1_loop:
  "pageLoop 2 noParser keepTitle bookSite siteConfig
     \<lparr>title = [], content = [], currentUrl = Some (str ''http://x/1.html''), visitedUrls = []\<rparr>
     \<lparr>requests = 0, waits = []\<rparr>
   = Some (\<lparr>title = [], content = [], currentUrl = Some (str ''http://x/1.html''),
            visitedUrls = [str ''http://x/1.html'']\<rparr>,
           \<lparr>requests = 3, waits = [Some 1000, Some 2000]\<rparr>)"
  by (simp add: numeral_2_eq_2 chapter1_fetch chapter_urls_distinct)

lemma chapter2_loop:
  "pageLoop 3 noParser keepTitle bookSite siteConfig
     \<lparr>title = [], content = [], currentUrl = Some (str ''http://x/2.html''), visitedUrls = []\<rparr>
     \<lparr>requests = 0, waits = []\<rparr>
   = Some (\<lparr>title = str ''Two'', content = str ''Part1'' @ [10, 10] @ str ''Part2'',
            currentUrl = None,
            visitedUrls = [str ''http://x/2.html'', str ''http://x/2_2.html'']\<rparr>,
           \<lparr>requests = 2, waits = []\<rparr>)"
  by (simp add: numeral_3_eq_3 chapter_fetch chapter_next chapter_urls_distinct chapter_selectors
      chapter_fields chapter_texts keepTitle_def appendPage_def Let_def)

lemma chapter3_loop:
  "pageLoop 4 noParser keepTitle bookSite siteConfig
     \<lparr>title = [], content = [], currentUrl = Some (str ''http://x/3.html''), visitedUrls = []\<rparr>
     \<lparr>requests = 0, waits = []\<rparr>
   = Some (\<lparr>title = str ''Three'', content = str ''a'' @ [10, 10] @ str ''b'' @ [10, 10] @ str ''c'',
            currentUrl = Some (str ''http://x/3_2.html''),
            visitedUrls = [str ''http://x/3.html'', str ''http://x/3_2.html'', str ''http://x/3_3.html'']\<rparr>,
           \<lparr>requests = 3, waits = []\<rparr>)"
  by (simp add: eval_nat_numeral chapter_fetch chapter_next chapter_urls_distinct chapter_selectors
      chapter_fields chapter_texts keepTitle_def appendPage_def Let_def)

subsection \<open>Cycle safety\<close>

text \<open>
  C6, as the code has it. Let the URLs that the next-page links can lead to from the
  chapter's URL lie in a finite set \<open>U\<close>. Then the loop ends within \<open>card U\<close>
  iterations (every fuel above \<open>card U\<close> is enough), whatever the links are and also
  when they lead back to a URL already visited; it visits no URL twice; and a next-page
  URL that is already in the visited set ends it on the spot. Nothing but the visited set
  bounds the loop.
\<close>

theorem pageLoop_cycle_safe:
  assumes "finite U" and "chapterUrl \<in> U"
    and "\<And>n u pg v. u \<in> U \<Longrightarrow> get n u = Inr pg \<Longrightarrow>
           nextPageUrl newURL cfg u pg = Inr (Some v) \<Longrightarrow> v \<in> U"
    and "card U < fuel"
  shows "(\<exists>s w'. pageLoop fuel newURL cleanTitle get cfg
                    \<lparr>title = [], content = [], currentUrl = Some chapterUrl, visitedUrls = []\<rparr> w
                  = Some (s, w')
            \<and> distinct (visitedUrls s) \<and> set (visitedUrls s) \<subseteq> U
            \<and> length (visitedUrls s) \<le> card U)
       \<and> (\<exists>r w'. downloadChapterPages fuel newURL cleanTitle get chapterUrl cfg w = Some (Inr r, w'))
       \<and> (\<forall>s0 w0 k v. currentUrl s0 = Some v \<and> v \<in> set (visitedUrls s0)
             \<longrightarrow> pageLoop (Suc k) newURL cleanTitle get cfg s0 w0 = Some (s0, w0))"
proof -
  let ?s = "\<lparr>title = [], content = [], currentUrl = Some chapterUrl, visitedUrls = []\<rparr>"
  have "\<exists>s' w'. pageLoop fuel newURL cleanTitle get cfg ?s w = Some (s', w')
           \<and> set (visitedUrls s') \<subseteq> U \<and> distinct (visitedUrls s')"
    using assms(1) assms(3)
  proof (rule pageLoop_ends)
    show "set (visitedUrls ?s) \<subseteq> U" by simp
    show "distinct (visitedUrls ?s)" by simp
    show "u \<in> U" if "currentUrl ?s = Some u" for u using that assms(2) by simp
    show "card U - length (visitedUrls ?s) < fuel" using assms(4) by simp
  qed
  then obtain s' w' where r: "pageLoop fuel newURL cleanTitle get cfg ?s w = Some (s', w')"
    and sub: "set (visitedUrls s') \<subseteq> U" and dist: "distinct (visitedUrls s')"
    by blast
  have "card (set (visitedUrls s')) \<le> card U"
    using assms(1) sub by (rule card_mono)
  then have len: "length (visitedUrls s') \<le> card U"
    using dist by (simp add: distinct_card)
  have d: "\<exists>r w'. downloadChapterPages fuel newURL cleanTitle get chapterUrl cfg w = Some (Inr r, w')"
    using r by (simp add: downloadChapterPages_def)
  from r sub dist len d show ?thesis by auto
qed

theorem pageLoop_cycle_safe_witness:
  "finite (set [str ''http://x/3.html'', str ''http://x/3_2.html'', str ''http://x/3_3.html''])
   \<and> str ''http://x/3.html'' \<in> set [str ''http://x/3.html'', str ''http://x/3_2.html'', str ''http://x/3_3.html'']
   \<and> card (set [str ''http://x/3.html'', str ''http://x/3_2.html'', str ''http://x/3_3.html'']) < 4
   \<and> (\<exists>s w'. pageLoop 4 noParser keepTitle bookSite siteConfig
                \<lparr>title = [], content = [], currentUrl = Some (str ''http://x/3.html''), visitedUrls = []\<rparr>
                world0 = Some (s, w')
          \<and> distinct (visitedUrls s)
          \<and> set (visitedUrls s) \<subseteq> set [str ''http://x/3.html'', str ''http://x/3_2.html'', str ''http://x/3_3.html'']
          \<and> length (visitedUrls s) \<le> card (set [str ''http://x/3.html'', str ''http://x/3_2.html'', str ''http://x/3_3.html'']))
   \<and> (\<exists>r w'. downloadChapterPages 4 noParser keepTitle bookSite (str ''http://x/3.html'') siteConfig world0
               = Some (Inr r, w'))"
proof -
  let ?U = "set [str ''http://x/3.html'', str ''http://x/3_2.html'', str ''http://x/3_3.html'']"
  have fin: "finite ?U" by simp
  have start: "str ''http://x/3.html'' \<in> ?U" by simp
  have "distinct [str ''http://x/3.html'', str ''http://x/3_2.html'', str ''http://x/3_3.html'']"
    by (simp add: chapter_urls_distinct)
  then have "card ?U = 3"
    by (simp add: distinct_card del: set_simps)
  then have c: "card ?U < 4" by simp
  have closed: "v \<in> ?U"
    if "u \<in> ?U" and "bookSite n u = Inr pg" and "nextPageUrl noParser siteConfig u pg = Inr (Some v)"
    for n u pg v
  proof -
    from that(1) consider "u = str ''http://x/3.html''" | "u = str ''http://x/3_2.html''"
      | "u = str ''http://x/3_3.html''" by auto
    then show ?thesis
    proof cases
      case 1
      with that(2) have "pg = chapter3a" by (simp add: bookSite_at)
      with 1 that(3) show ?thesis by (simp add: chapter_next)
    next
      case 2
      with that(2) have "pg = chapter3b" by (simp add: bookSite_at)
      with 2 that(3) show ?thesis by (simp add: chapter_next)
    next
      case 3
      with that(2) have "pg = chapter3c" by (simp add: bookSite_at)
      with 3 that(3) show ?thesis by (simp add: chapter_next)
    qed
  qed
  have "(\<exists>s w'. pageLoop 4 noParser keepTitle bookSite siteConfig
                \<lparr>title = [], content = [], currentUrl = Some (str ''http://x/3.html''), visitedUrls = []\<rparr>
                world0 = Some (s, w')
            \<and> distinct (visitedUrls s) \<and> set (visitedUrls s) \<subseteq> ?U
            \<and> length (visitedUrls s) \<le> card ?U)
       \<and> (\<exists>r w'. downloadChapterPages 4 noParser keepTitle bookSite (str ''http://x/3.html'') siteConfig world0
                   = Some (Inr r, w'))
       \<and> (\<forall>s0 w0 k v. currentUrl s0 = Some v \<and> v \<in> set (visitedUrls s0)
             \<longrightarrow> pageLoop (Suc k) noParser keepTitle bookSite siteConfig s0 w0 = Some (s0, w0))"
    using fin start closed c by (rule pageLoop_cycle_safe)
  with fin start c show ?thesis by blast
qed

text \<open>
  On \<open>trapSite\<close> every page links to a URL that was not visited yet, and the loop has
  not ended after any number of iterations.
\<close>

theorem pageLoop_endless_site:
  "\<forall>fuel. downloadChapterPages fuel noParser keepTitle trapSite (str ''http://x/'') siteConfig world0
            = None"
proof
  fix fuel
  have "pageLoop fuel noParser keepTitle trapSite siteConfig
          \<lparr>title = [], content = [], currentUrl = Some (str ''http://x/''), visitedUrls = []\<rparr> world0
        = None"
    by (rule trapSite_never_ends [where u = "str ''http://x/''"])
       (simp_all add: startsWith_def str_def)
  then show "downloadChapterPages fuel noParser keepTitle trapSite (str ''http://x/'') siteConfig world0
             = None"
    by (simp add: downloadChapterPages_def)
qed

section \<open>Joining the pages of a chapter\<close>

subsection \<open>trim\<close>

lemma trim_ends:
  assumes "trim s \<noteq> []"
  shows "\<not> isWhiteSpace (hd (trim s)) \<and> \<not> isWhiteSpace (last (trim s))"
proof -
  define a where "a = dropWhile isWhiteSpace s"
  define b where "b = dropWhile isWhiteSpace (rev a)"
  have t: "trim s = rev b" by (simp add: trim_def a_def b_def)
  with assms have bne: "b \<noteq> []" by simp
  then have ane: "a \<noteq> []" by (auto simp: b_def)
  have hb: "\<not> isWhiteSpace (hd b)"
    using bne unfolding b_def by (rule hd_dropWhile)
  have ha: "\<not> isWhiteSpace (hd a)"
    using ane unfolding a_def by (rule hd_dropWhile)
  have "rev a = takeWhile isWhiteSpace (rev a) @ b"
    by (simp add: b_def)
  then have "last (rev a) = last b"
    using bne by (metis last_appendR)
  then have "last b = hd a"
    using ane by (simp add: last_rev)
  with ha hb bne show ?thesis
    by (simp add: t hd_rev last_rev)
qed

lemma trim_id:
  assumes "s \<noteq> []" and "\<not> isWhiteSpace (hd s)" and "\<not> isWhiteSpace (last s)"
  shows "trim s = s"
proof -
  have a: "dropWhile isWhiteSpace s = s"
    using assms(1,2) by (cases s) simp_all
  have "dropWhile isWhiteSpace (rev s) = rev s"
    using assms(1,3) by (cases "rev s") (simp_all add: hd_rev [symmetric])
  with a show ?thesis by (simp add: trim_def)
qed

lemma trim_Nil: "trim [] = []"
  by (simp add: trim_def)

subsection \<open>Joining\<close>

lemma joinTexts_ends:
  assumes "xs \<noteq> []" and "\<forall>t \<in> set xs. t \<noteq> []"
  shows "joinTexts xs \<noteq> [] \<and> hd (joinTexts xs) = hd (hd xs)
         \<and> last (joinTexts xs) = last (last xs)"
  using assms
proof (induction xs rule: joinTexts.induct)
  case 1
  then show ?case by simp
next
  case (2 t)
  then show ?case by simp
next
  case (3 t v va)
  then show ?case by simp
qed

lemma joinTexts_Cons:
  "joinTexts (t # ts) = (if ts = [] then t else t @ [10, 10] @ joinTexts ts)"
  by (cases ts) simp_all

lemma joinPages_empty_iff: "joinPages ts = [] \<longleftrightarrow> filter (\<lambda>t. t \<noteq> []) ts = []"
proof (cases "filter (\<lambda>t. t \<noteq> []) ts = []")
  case True
  then show ?thesis by (simp add: joinPages_def)
next
  case False
  have ne: "\<forall>t \<in> set (filter (\<lambda>t. t \<noteq> []) ts). t \<noteq> []" by simp
  from joinTexts_ends [OF False ne] have "joinTexts (filter (\<lambda>t. t \<noteq> []) ts) \<noteq> []"
    by blast
  with False show ?thesis by (simp add: joinPages_def)
qed

lemma foldl_appendPage:
  "foldl appendPage acc ts =
     (if joinPages ts = [] then acc
      else if acc = [] then joinPages ts
      else acc @ [10, 10] @ joinPages ts)"
proof (induction ts arbitrary: acc)
  case Nil
  then show ?case by (simp add: joinPages_def)
next
  case (Cons t ts)
  show ?case
  proof (cases "t = []")
    case True
    then have "appendPage acc t = acc" and "joinPages (t # ts) = joinPages ts"
      by (simp_all add: appendPage_def joinPages_def)
    then show ?thesis by (simp add: Cons.IH)
  next
    case False
    have j: "joinPages (t # ts) = (if joinPages ts = [] then t else t @ [10, 10] @ joinPages ts)"
      using False joinPages_empty_iff [of ts] by (simp add: joinPages_def joinTexts_Cons)
    have a: "appendPage acc t = (if acc = [] then t else acc @ [10, 10] @ t)" for acc
      using False by (simp add: appendPage_def)
    have ne: "appendPage acc t \<noteq> []" "joinPages (t # ts) \<noteq> []"
      using False by (simp_all add: a j)
    have "foldl appendPage acc (t # ts) = foldl appendPage (appendPage acc t) ts"
      by simp
    also have "\<dots> = (if joinPages ts = [] then appendPage acc t
                     else appendPage acc t @ [10, 10] @ joinPages ts)"
      using ne(1) by (simp add: Cons.IH)
    also have "\<dots> = (if acc = [] then joinPages (t # ts) else acc @ [10, 10] @ joinPages (t # ts))"
      by (simp add: a j)
    finally show ?thesis using ne(2) by simp
  qed
qed

lemma trim_joinPages:
  assumes "\<forall>t \<in> set ts. \<exists>raw. t = trim raw"
  shows "trim (joinPages ts) = joinPages ts"
proof (cases "filter (\<lambda>t. t \<noteq> []) ts = []")
  case True
  then show ?thesis by (simp add: joinPages_def trim_Nil)
next
  case False
  let ?xs = "filter (\<lambda>t. t \<noteq> []) ts"
  have ne: "\<forall>t \<in> set ?xs. t \<noteq> []" by simp
  from joinTexts_ends [OF False ne]
  have j: "joinTexts ?xs \<noteq> []" and h: "hd (joinTexts ?xs) = hd (hd ?xs)"
    and l: "last (joinTexts ?xs) = last (last ?xs)" by simp_all
  have ends: "\<not> isWhiteSpace (hd t) \<and> \<not> isWhiteSpace (last t)" if "t \<in> set ?xs" for t
  proof -
    from that assms obtain raw where "t = trim raw" and "t \<noteq> []" by auto
    then show ?thesis using trim_ends [of raw] by simp
  qed
  have "hd ?xs \<in> set ?xs" and "last ?xs \<in> set ?xs"
    using False by (simp_all del: set_filter)
  with ends h l have "\<not> isWhiteSpace (hd (joinTexts ?xs))" and "\<not> isWhiteSpace (last (joinTexts ?xs))"
    by simp_all
  with j show ?thesis
    unfolding joinPages_def by (rule trim_id)
qed

subsection \<open>The content of a chapter\<close>

lemma pageLoop_content:
  assumes "pageLoop fuel newURL cleanTitle get cfg s w = Some (s', w')"
    and "truthy (contentSelector cfg)"
  shows "content s' = foldl appendPage (content s)
           (map (\<lambda>pg. trim (contentText pg))
              (pagesRead fuel newURL get cfg (currentUrl s) (visitedUrls s) w))"
  using assms(1)
proof (induction fuel arbitrary: s w)
  case 0
  then show ?case by simp
next
  case (Suc fuel)
  show ?case
  proof (cases "currentUrl s")
    case None
    with Suc.prems show ?thesis by simp
  next
    case (Some u)
    show ?thesis
    proof (cases "u = [] \<or> u \<in> set (visitedUrls s)")
      case True
      with Some Suc.prems show ?thesis by auto
    next
      case False
      obtain r w1 where f: "fetchWithRetry get u (retry cfg) w = (r, w1)"
        by (cases "fetchWithRetry get u (retry cfg) w")
      show ?thesis
      proof (cases r)
        case (Inl e)
        with Some False f Suc.prems show ?thesis by auto
      next
        case (Inr html)
        define s3 where "s3 =
          (let s1 = s\<lparr>visitedUrls := visitedUrls s @ [u]\<rparr>;
               s2 = (if title s1 = [] \<and> truthy (titleSelector cfg)
                     then s1\<lparr>title := cleanTitle (trim (titleText html))\<rparr> else s1)
           in (if truthy (contentSelector cfg)
               then s2\<lparr>content := appendPage (content s2) (trim (contentText html))\<rparr>
               else s2))"
        have v3: "visitedUrls s3 = visitedUrls s @ [u]"
          and c3: "content s3 = appendPage (content s) (trim (contentText html))"
          using assms(2) by (simp_all add: s3_def Let_def)
        show ?thesis
        proof (cases "nextPageUrl newURL cfg u html")
          case (Inl e)
          have "pageLoop (Suc fuel) newURL cleanTitle get cfg s w = Some (s3, w1)"
            using Some False f Inr Inl by (simp add: s3_def Let_def)
          with Suc.prems have "s' = s3" by simp
          with Some False f Inr Inl c3 show ?thesis by simp
        next
          case nxt: (Inr nextUrl)
          have step: "pageLoop (Suc fuel) newURL cleanTitle get cfg s w
                      = pageLoop fuel newURL cleanTitle get cfg (s3\<lparr>currentUrl := nextUrl\<rparr>) w1"
            using Some False f Inr nxt by (simp add: s3_def Let_def)
          with Suc.prems have "pageLoop fuel newURL cleanTitle get cfg (s3\<lparr>currentUrl := nextUrl\<rparr>) w1
                               = Some (s', w')" by simp
          from Suc.IH [OF this] v3 c3 Some False f Inr nxt show ?thesis by simp
        qed
      qed
    qed
  qed
qed

lemma pagesRead_texts_trimmed:
  "\<forall>t \<in> set (map (\<lambda>pg. trim (contentText pg)) pgs). \<exists>raw. t = trim raw"
  by auto

text \<open>
  C8. When \<open>downloadChapterPages\<close> returns, the content is the trimmed texts of the
  pages read, in the order they were read, the empty ones left out, joined by a blank line
  (two newlines); it is empty when no content selector is configured. For the chapter
  whose first page reads \<open>Part1\<close> and links to a second page that reads \<open>Part2\<close> and
  has no next page, the content is \<open>Part1\<close>, two newlines, \<open>Part2\<close>.
\<close>

theorem downloadChapterPages_joins_pages:
  assumes "downloadChapterPages fuel newURL cleanTitle get chapterUrl cfg w = Some (Inr r, w')"
  shows "content r =
           (if truthy (contentSelector cfg)
            then joinPages (map (\<lambda>pg. trim (contentText pg))
                              (pagesRead fuel newURL get cfg (Some chapterUrl) [] w))
            else [])"
proof -
  let ?s0 = "\<lparr>title = [], content = [], currentUrl = Some chapterUrl, visitedUrls = []\<rparr>"
  from assms obtain s where l: "pageLoop fuel newURL cleanTitle get cfg ?s0 w = Some (s, w')"
    and r: "content r = trim (content s)"
    by (auto simp: downloadChapterPages_def split: option.splits)
  show ?thesis
  proof (cases "truthy (contentSelector cfg)")
    case True
    let ?ts = "map (\<lambda>pg. trim (contentText pg)) (pagesRead fuel newURL get cfg (Some chapterUrl) [] w)"
    from pageLoop_content [OF l True] have "content s = foldl appendPage [] ?ts" by simp
    then have "content s = joinPages ?ts" by (simp add: foldl_appendPage)
    with r True show ?thesis
      by (simp add: trim_joinPages [OF pagesRead_texts_trimmed])
  next
    case False
    have "content s' = content s0" if "pageLoop k newURL cleanTitle get cfg s0 w0 = Some (s', w1)"
      for k s0 w0 s' w1
      using that
    proof (induction k arbitrary: s0 w0)
      case 0
      then show ?case by simp
    next
      case (Suc k)
      show ?case
      proof (cases "currentUrl s0")
        case None
        with Suc.prems show ?thesis by simp
      next
        case (Some u)
        show ?thesis
        proof (cases "u = [] \<or> u \<in> set (visitedUrls s0)")
          case True
          with Some Suc.prems show ?thesis by auto
        next
          case nv: False
          obtain q w2 where f: "fetchWithRetry get u (retry cfg) w0 = (q, w2)"
            by (cases "fetchWithRetry get u (retry cfg) w0")
          show ?thesis
          proof (cases q)
            case (Inl e)
            with Some nv f Suc.prems show ?thesis by auto
          next
            case (Inr html)
            define s2 where "s2 =
              (let s1 = s0\<lparr>visitedUrls := visitedUrls s0 @ [u]\<rparr>
               in (if title s1 = [] \<and> truthy (titleSelector cfg)
                   then s1\<lparr>title := cleanTitle (trim (titleText html))\<rparr> else s1))"
            have c2: "content s2 = content s0" by (simp add: s2_def Let_def)
            show ?thesis
            proof (cases "nextPageUrl newURL cfg u html")
              case (Inl e)
              with Some nv f Inr Suc.prems False have "s' = s2"
                by (simp add: s2_def Let_def)
              with c2 show ?thesis by simp
            next
              case nxt: (Inr nextUrl)
              with Some nv f Inr Suc.prems False
              have "pageLoop k newURL cleanTitle get cfg (s2\<lparr>currentUrl := nextUrl\<rparr>) w2 = Some (s', w1)"
                by (simp add: s2_def Let_def)
              from Suc.IH [OF this] c2 show ?thesis by simp
            qed
          qed
        qed
      qed
    qed
    from this [OF l] r False show ?thesis by (simp add: trim_Nil)
  qed
qed

lemma chapter2_pagesRead:
  "pagesRead 3 noParser bookSite siteConfig (Some (str ''http://x/2.html'')) [] \<lparr>requests = 0, waits = []\<rparr>
   = [chapter2a, chapter2b]"
  by (simp add: numeral_3_eq_3 chapter_fetch chapter_next chapter_urls_distinct)

lemma chapter2_download:
  "downloadChapterPages 3 noParser keepTitle bookSite (str ''http://x/2.html'') siteConfig
     \<lparr>requests = 0, waits = []\<rparr>
   = Some (Inr \<lparr>title = str ''Two'', content = str ''Part1'' @ [10, 10] @ str ''Part2''\<rparr>,
           \<lparr>requests = 2, waits = []\<rparr>)"
proof -
  have "trim (str ''Part1'' @ [10, 10] @ str ''Part2'') = str ''Part1'' @ [10, 10] @ str ''Part2''"
    by (simp add: trim_def str_def isWhiteSpace_def)
  then show ?thesis
    by (simp add: downloadChapterPages_def chapter2_loop chapter_texts)
qed

theorem downloadChapterPages_joins_pages_witness:
  "downloadChapterPages 3 noParser keepTitle bookSite (str ''http://x/2.html'') siteConfig world0
     = Some (Inr \<lparr>title = str ''Two'', content = str ''Part1'' @ [10, 10] @ str ''Part2''\<rparr>,
             \<lparr>requests = 2, waits = []\<rparr>)
   \<and> truthy (contentSelector siteConfig)
   \<and> map (\<lambda>pg. trim (contentText pg))
         (pagesRead 3 noParser bookSite siteConfig (Some (str ''http://x/2.html'')) [] world0)
     = [str ''Part1'', str ''Part2'']
   \<and> joinPages [str ''Part1'', str ''Part2''] = str ''Part1'' @ [10, 10] @ str ''Part2''"
proof -
  have d: "downloadChapterPages 3 noParser keepTitle bookSite (str ''http://x/2.html'') siteConfig world0
     = Some (Inr \<lparr>title = str ''Two'', content = str ''Part1'' @ [10, 10] @ str ''Part2''\<rparr>,
             \<lparr>requests = 2, waits = []\<rparr>)"
    by (simp add: world0_def chapter2_download)
  have p: "map (\<lambda>pg. trim (contentText pg))
             (pagesRead 3 noParser bookSite siteConfig (Some (str ''http://x/2.html'')) [] world0)
           = [str ''Part1'', str ''Part2'']"
    by (simp add: world0_def chapter2_pagesRead chapter_fields chapter_texts)
  from downloadChapterPages_joins_pages [OF d]
  have "content \<lparr>title = str ''Two'', content = str ''Part1'' @ [10, 10] @ str ''Part2''\<rparr>
        = joinPages [str ''Part1'', str ''Part2'']"
    by (simp only: p chapter_selectors if_True)
  then have j: "joinPages [str ''Part1'', str ''Part2''] = str ''Part1'' @ [10, 10] @ str ''Part2''"
    by simp
  from d p j chapter_selectors(2) show ?thesis by blast
qed

section \<open>The results of a run\<close>

subsection \<open>The success flag\<close>

text \<open>A task that ends is fulfilled, with its own index, and is marked successful.\<close>

lemma chapterTask_fulfilled:
  "chapterTask fuel newURL cleanTitle get cfg c i = Some st \<Longrightarrow>
   \<exists>r. st = Fulfilled r \<and> index r = i \<and> success r \<and> error r = None"
  by (auto simp: chapterTask_def downloadChapterPages_def split: option.splits prod.splits sum.splits)

text \<open>
  C2. A result is unsuccessful exactly when the first page of its chapter cannot be fetched.
  The code does not do this: \<open>downloadChapterPages\<close> catches the failure of the first
  page as it catches any later one, so the task of a chapter whose first page never
  answers returns \<open>success = true\<close>, with the sentinel title and an empty content, and
  no error message. By the lemma above no task returns \<open>success = false\<close>; the
  \<open>catch\<close> of \<open>downloadAllChapters\<close> that builds such a result never runs.
\<close>

theorem chapterTask_first_page_fails:
  "chapterTask 2 noParser keepTitle bookSite siteConfig
     \<lparr>url = str ''http://x/1.html'', title = str ''Ch1''\<rparr> 0
   = Some (Fulfilled \<lparr>title = unknownTitle, content = [], index = 0, success = True, error = None\<rparr>)"
  by (simp add: chapterTask_def downloadChapterPages_def chapter1_loop chapter_texts unknownTitle_def)

text \<open>The merger prints this result as a failed chapter, without the reason.\<close>

lemma chapterBlock_first_page_fails:
  "chapterBlock \<lparr>title = unknownTitle, content = [], index = 0, success = True, error = None\<rparr>
   = unknownTitle @ [10, 0x5B, 0x4E0B, 0x8F7D, 0x5931, 0x8D25, 0x3A, 0x20] @ unknownError
       @ [0x5D, 10, 10] @ rule80 @ [10, 10]"
  by (simp add: chapterBlock_def)

subsection \<open>One result per chapter\<close>

lemma allSettled_map_Some: "allSettled (map Some rs) = Some rs"
  by (induction rs) simp_all

lemma allSettled_Some_iff: "allSettled ps = Some rs \<longleftrightarrow> ps = map Some rs"
proof
  show "allSettled ps = Some rs \<Longrightarrow> ps = map Some rs"
    by (induction ps arbitrary: rs) (auto split: option.splits)
  show "ps = map Some rs \<Longrightarrow> allSettled ps = Some rs"
    by (simp add: allSettled_map_Some)
qed

lemma allSettled_None_iff: "allSettled ps = None \<longleftrightarrow> None \<in> set ps"
  by (induction ps) (auto split: option.splits)

lemma promises_nth:
  "i < length chapters \<Longrightarrow>
   promises fuel newURL cleanTitle nets chapters cfg ! i
     = chapterTask fuel newURL cleanTitle (nets i) cfg (chapters ! i) i"
  by (simp add: promises_def nth_enumerate_eq)

lemma promises_length: "length (promises fuel newURL cleanTitle nets chapters cfg) = length chapters"
  by (simp add: promises_def)

text \<open>A task ends when the URLs its chapter can reach lie in a finite set.\<close>

lemma chapterTask_ends:
  assumes "finite U" and "url c \<in> U"
    and "\<And>n u pg v. u \<in> U \<Longrightarrow> get n u = Inr pg \<Longrightarrow>
           nextPageUrl newURL cfg u pg = Inr (Some v) \<Longrightarrow> v \<in> U"
    and "card U < fuel"
  shows "chapterTask fuel newURL cleanTitle get cfg c i \<noteq> None"
proof -
  let ?s = "\<lparr>title = [], content = [], currentUrl = Some (url c), visitedUrls = []\<rparr>"
  have "\<exists>s' w'. pageLoop fuel newURL cleanTitle get cfg ?s \<lparr>requests = 0, waits = []\<rparr> = Some (s', w')
           \<and> set (visitedUrls s') \<subseteq> U \<and> distinct (visitedUrls s')"
    using assms(1) assms(3)
  proof (rule pageLoop_ends)
    show "set (visitedUrls ?s) \<subseteq> U" by simp
    show "distinct (visitedUrls ?s)" by simp
    show "u \<in> U" if "currentUrl ?s = Some u" for u using that assms(2) by simp
    show "card U - length (visitedUrls ?s) < fuel" using assms(4) by simp
  qed
  then show ?thesis
    by (auto simp: chapterTask_def downloadChapterPages_def)
qed

text \<open>The results pushed for the settled tasks.\<close>

lemma settled_results:
  assumes a: "allSettled (promises fuel newURL cleanTitle nets chapters cfg) = Some settledResults"
    and res: "results = map (pushResult chapters) (enumerate 0 settledResults)"
  shows "length results = length chapters
       \<and> map index results = [0..<length chapters]
       \<and> (\<forall>i < length chapters.
             chapterTask fuel newURL cleanTitle (nets i) cfg (chapters ! i) i
               = Some (Fulfilled (results ! i)))"
proof (intro conjI)
  let ?ts = "promises fuel newURL cleanTitle nets chapters cfg"
  from a have ts: "?ts = map Some settledResults" by (simp add: allSettled_Some_iff)
  then have len: "length settledResults = length chapters"
    by (metis length_map promises_length)
  show "length results = length chapters"
    by (simp add: res len)
  have at: "chapterTask fuel newURL cleanTitle (nets i) cfg (chapters ! i) i = Some (settledResults ! i)"
    if "i < length chapters" for i
  proof -
    have "?ts ! i = Some (settledResults ! i)"
      using that len by (simp add: ts)
    with that show ?thesis by (simp add: promises_nth)
  qed
  have ful: "settledResults ! i = Fulfilled (results ! i) \<and> index (results ! i) = i"
    if "i < length chapters" for i
  proof -
    from chapterTask_fulfilled [OF at [OF that]]
    obtain v where v: "settledResults ! i = Fulfilled v" and iv: "index v = i" by blast
    have "results ! i = pushResult chapters (i, settledResults ! i)"
      using that len by (simp add: res nth_enumerate_eq)
    with v iv show ?thesis by simp
  qed
  show "map index results = [0..<length chapters]"
  proof (rule nth_equalityI)
    show "length (map index results) = length [0..<length chapters]"
      by (simp add: res len)
    show "map index results ! i = [0..<length chapters] ! i" if "i < length (map index results)" for i
      using that ful [of i] by (simp add: res len)
  qed
  show "\<forall>i < length chapters.
          chapterTask fuel newURL cleanTitle (nets i) cfg (chapters ! i) i = Some (Fulfilled (results ! i))"
    using at ful by simp
qed

text \<open>
  C7, as the code has it. Let the cap be at least 1 and let the URLs that the chapters of
  the list can reach lie in a finite set \<open>U\<close>. Then, with any fuel above \<open>card U\<close>,
  \<open>downloadAllChapters\<close> returns a result set, and the set has one result per chapter of
  the list: its length is the length of the list, its indices are 0 to N-1 in this order,
  with no gap and no duplicate, and the result at position \<open>i\<close> is the result of the task
  of the chapter at position \<open>i\<close>.
\<close>

theorem downloadAllChapters_one_result_per_chapter:
  assumes "1 \<le> concurrency cfg"
    and "finite U"
    and "\<And>i. i < length chapters \<Longrightarrow> url (chapters ! i) \<in> U"
    and "\<And>i n u pg v. i < length chapters \<Longrightarrow> u \<in> U \<Longrightarrow> nets i n u = Inr pg \<Longrightarrow>
           nextPageUrl newURL cfg u pg = Inr (Some v) \<Longrightarrow> v \<in> U"
    and "card U < fuel"
  shows "\<exists>results.
           downloadAllChapters fuel newURL cleanTitle nets chapters cfg = Some (Inr results)
         \<and> length results = length chapters
         \<and> map index results = [0..<length chapters]
         \<and> (\<forall>i < length chapters.
               chapterTask fuel newURL cleanTitle (nets i) cfg (chapters ! i) i
                 = Some (Fulfilled (results ! i)))"
proof -
  let ?ts = "promises fuel newURL cleanTitle nets chapters cfg"
  have "?ts ! i \<noteq> None" if "i < length ?ts" for i
  proof -
    from that have i: "i < length chapters" by (simp add: promises_length)
    have "chapterTask fuel newURL cleanTitle (nets i) cfg (chapters ! i) i \<noteq> None"
      using assms(2) assms(3) [OF i] assms(4) [OF i] assms(5) by (rule chapterTask_ends)
    with i show ?thesis by (simp add: promises_nth)
  qed
  then have "None \<notin> set ?ts" by (metis in_set_conv_nth)
  then have "allSettled ?ts \<noteq> None" by (simp add: allSettled_None_iff)
  then obtain settledResults where a: "allSettled ?ts = Some settledResults" by blast
  define results where "results = map (pushResult chapters) (enumerate 0 settledResults)"
  have d: "downloadAllChapters fuel newURL cleanTitle nets chapters cfg = Some (Inr results)"
    using assms(1) a by (simp add: downloadAllChapters_def pLimit_def results_def)
  from settled_results [OF a results_def] d show ?thesis by blast
qed

text \<open>
  Without these hypotheses there is no result set: a list one chapter of which is on
  \<open>trapSite\<close> has none for any fuel, and with a cap of -3 \<open>pLimit\<close> throws before any
  task starts.
\<close>

theorem downloadAllChapters_no_result_set:
  "(\<forall>fuel. downloadAllChapters fuel noParser keepTitle trapNets trapChapters siteConfig = None)
   \<and> downloadAllChapters 7 noParser keepTitle (\<lambda>i. bookSite) bookChapters
        (siteConfig\<lparr>concurrency := - 3\<rparr>)
     = Some (Inl (TypeError (str ''Expected `concurrency` to be a number from 1 and up'')))"
proof (intro conjI allI)
  fix fuel
  have "pageLoop fuel noParser keepTitle trapSite siteConfig
          \<lparr>title = [], content = [], currentUrl = Some (str ''http://x/''), visitedUrls = []\<rparr>
          \<lparr>requests = 0, waits = []\<rparr> = None"
    by (rule trapSite_never_ends [where u = "str ''http://x/''"])
       (simp_all add: startsWith_def str_def)
  then have "chapterTask fuel noParser keepTitle trapSite siteConfig
               \<lparr>url = str ''http://x/'', title = str ''Ch0''\<rparr> 0 = None"
    by (simp add: chapterTask_def downloadChapterPages_def)
  then have "allSettled (promises fuel noParser keepTitle trapNets trapChapters siteConfig) = None"
    by (simp add: promises_def trapChapters_def trapNets_def enumerate_eq_zip upt_rec)
  then show "downloadAllChapters fuel noParser keepTitle trapNets trapChapters siteConfig = None"
    by (simp add: downloadAllChapters_def pLimit_def siteConfig_def)
next
  show "downloadAllChapters 7 noParser keepTitle (\<lambda>i. bookSite) bookChapters
          (siteConfig\<lparr>concurrency := - 3\<rparr>)
        = Some (Inl (TypeError (str ''Expected `concurrency` to be a number from 1 and up'')))"
    by (simp add: downloadAllChapters_def pLimit_def)
qed

lemma chapter3_download:
  "downloadChapterPages 4 noParser keepTitle bookSite (str ''http://x/3.html'') siteConfig
     \<lparr>requests = 0, waits = []\<rparr>
   = Some (Inr \<lparr>title = str ''Three'', content = str ''a'' @ [10, 10] @ str ''b'' @ [10, 10] @ str ''c''\<rparr>,
           \<lparr>requests = 3, waits = []\<rparr>)"
proof -
  have "trim (str ''a'' @ [10, 10] @ str ''b'' @ [10, 10] @ str ''c'')
          = str ''a'' @ [10, 10] @ str ''b'' @ [10, 10] @ str ''c''"
    by (simp add: trim_def str_def isWhiteSpace_def)
  then show ?thesis
    by (simp add: downloadChapterPages_def chapter3_loop chapter_texts)
qed

lemma downloadChapterPages_more_fuel:
  "downloadChapterPages fuel newURL cleanTitle get u cfg w = Some r \<Longrightarrow>
   downloadChapterPages (fuel + k) newURL cleanTitle get u cfg w = Some r"
  by (auto simp: downloadChapterPages_def pageLoop_more_fuel split: option.splits)

lemma chapter1_download:
  "downloadChapterPages 2 noParser keepTitle bookSite (str ''http://x/1.html'') siteConfig
     \<lparr>requests = 0, waits = []\<rparr>
   = Some (Inr \<lparr>title = unknownTitle, content = []\<rparr>, \<lparr>requests = 3, waits = [Some 1000, Some 2000]\<rparr>)"
  by (simp add: downloadChapterPages_def chapter1_loop chapter_texts)

lemma book_tasks:
  "chapterTask 7 noParser keepTitle bookSite siteConfig
     \<lparr>url = str ''http://x/1.html'', title = str ''Ch1''\<rparr> 0
   = Some (Fulfilled \<lparr>title = unknownTitle, content = [], index = 0, success = True, error = None\<rparr>)"
  "chapterTask 7 noParser keepTitle bookSite siteConfig
     \<lparr>url = str ''http://x/2.html'', title = str ''Ch2''\<rparr> (Suc 0)
   = Some (Fulfilled \<lparr>title = str ''Two'', content = str ''Part1'' @ [10, 10] @ str ''Part2'',
                      index = Suc 0, success = True, error = None\<rparr>)"
  "chapterTask 7 noParser keepTitle bookSite siteConfig
     \<lparr>url = str ''http://x/3.html'', title = str ''Ch3''\<rparr> (Suc (Suc 0))
   = Some (Fulfilled \<lparr>title = str ''Three'',
                      content = str ''a'' @ [10, 10] @ str ''b'' @ [10, 10] @ str ''c'',
                      index = Suc (Suc 0), success = True, error = None\<rparr>)"
proof -
  have u: "unknownTitle \<noteq> []" by (simp add: unknownTitle_def)
  have d1: "downloadChapterPages 7 noParser keepTitle bookSite (str ''http://x/1.html'') siteConfig
     \<lparr>requests = 0, waits = []\<rparr>
   = Some (Inr \<lparr>title = unknownTitle, content = []\<rparr>, \<lparr>requests = 3, waits = [Some 1000, Some 2000]\<rparr>)"
    using downloadChapterPages_more_fuel [OF chapter1_download, of 5] by simp
  have d2: "downloadChapterPages 7 noParser keepTitle bookSite (str ''http://x/2.html'') siteConfig
     \<lparr>requests = 0, waits = []\<rparr>
   = Some (Inr \<lparr>title = str ''Two'', content = str ''Part1'' @ [10, 10] @ str ''Part2''\<rparr>,
           \<lparr>requests = 2, waits = []\<rparr>)"
    using downloadChapterPages_more_fuel [OF chapter2_download, of 4] by simp
  have d3: "downloadChapterPages 7 noParser keepTitle bookSite (str ''http://x/3.html'') siteConfig
     \<lparr>requests = 0, waits = []\<rparr>
   = Some (Inr \<lparr>title = str ''Three'', content = str ''a'' @ [10, 10] @ str ''b'' @ [10, 10] @ str ''c''\<rparr>,
           \<lparr>requests = 3, waits = []\<rparr>)"
    using downloadChapterPages_more_fuel [OF chapter3_download, of 3] by simp
  show "chapterTask 7 noParser keepTitle bookSite siteConfig
     \<lparr>url = str ''http://x/1.html'', title = str ''Ch1''\<rparr> 0
   = Some (Fulfilled \<lparr>title = unknownTitle, content = [], index = 0, success = True, error = None\<rparr>)"
    by (simp add: chapterTask_def d1 u)
  show "chapterTask 7 noParser keepTitle bookSite siteConfig
     \<lparr>url = str ''http://x/2.html'', title = str ''Ch2''\<rparr> (Suc 0)
   = Some (Fulfilled \<lparr>title = str ''Two'', content = str ''Part1'' @ [10, 10] @ str ''Part2'',
                      index = Suc 0, success = True, error = None\<rparr>)"
    by (simp add: chapterTask_def d2 chapter_texts)
  show "chapterTask 7 noParser keepTitle bookSite siteConfig
     \<lparr>url = str ''http://x/3.html'', title = str ''Ch3''\<rparr> (Suc (Suc 0))
   = Some (Fulfilled \<lparr>title = str ''Three'',
                      content = str ''a'' @ [10, 10] @ str ''b'' @ [10, 10] @ str ''c'',
                      index = Suc (Suc 0), success = True, error = None\<rparr>)"
    by (simp add: chapterTask_def d3 chapter_texts)
qed

lemma book_download:
  "downloadAllChapters 7 noParser keepTitle (\<lambda>i. bookSite) bookChapters siteConfig
     = Some (Inr bookResults)"
proof -
  have "pLimit (concurrency siteConfig) = None"
    by (simp add: pLimit_def siteConfig_def)
  then show ?thesis
    by (simp add: downloadAllChapters_def promises_def bookChapters_def enumerate_eq_zip upt_rec
        book_tasks bookResults_def numeral_2_eq_2)
qed

theorem downloadAllChapters_one_result_per_chapter_witness:
  "1 \<le> concurrency siteConfig
   \<and> finite (set [str ''http://x/1.html'', str ''http://x/2.html'', str ''http://x/2_2.html'',
                   str ''http://x/3.html'', str ''http://x/3_2.html'', str ''http://x/3_3.html''])
   \<and> card (set [str ''http://x/1.html'', str ''http://x/2.html'', str ''http://x/2_2.html'',
                 str ''http://x/3.html'', str ''http://x/3_2.html'', str ''http://x/3_3.html'']) < 7
   \<and> downloadAllChapters 7 noParser keepTitle (\<lambda>i. bookSite) bookChapters siteConfig
       = Some (Inr bookResults)
   \<and> length bookResults = length bookChapters
   \<and> map index bookResults = [0..<length bookChapters]
   \<and> chapterTask 7 noParser keepTitle bookSite siteConfig (bookChapters ! 1) 1
       = Some (Fulfilled (bookResults ! 1))"
proof -
  let ?U = "set [str ''http://x/1.html'', str ''http://x/2.html'', str ''http://x/2_2.html'',
                 str ''http://x/3.html'', str ''http://x/3_2.html'', str ''http://x/3_3.html'']"
  have cap: "1 \<le> concurrency siteConfig" by (simp add: siteConfig_def)
  have fin: "finite ?U" by simp
  have "card ?U \<le> length [str ''http://x/1.html'', str ''http://x/2.html'', str ''http://x/2_2.html'',
                 str ''http://x/3.html'', str ''http://x/3_2.html'', str ''http://x/3_3.html'']"
    by (rule card_length)
  then have c: "card ?U < 7" by simp
  have start: "url (bookChapters ! i) \<in> ?U" if "i < length bookChapters" for i
  proof -
    from that have "i = 0 \<or> i = 1 \<or> i = 2" by (auto simp: bookChapters_def)
    then show ?thesis by (auto simp: bookChapters_def)
  qed
  have closed: "v \<in> ?U"
    if "i < length bookChapters" and "u \<in> ?U" and "bookSite n u = Inr pg"
      and "nextPageUrl noParser siteConfig u pg = Inr (Some v)"
    for i n u pg v
  proof -
    from that(2) consider "u = str ''http://x/1.html''" | "u = str ''http://x/2.html''"
      | "u = str ''http://x/2_2.html''" | "u = str ''http://x/3.html''"
      | "u = str ''http://x/3_2.html''" | "u = str ''http://x/3_3.html''" by auto
    then show ?thesis
    proof cases
      case 1
      with that(3) show ?thesis by (simp add: bookSite_at)
    next
      case 2
      with that(3) have "pg = chapter2a" by (simp add: bookSite_at)
      with 2 that(4) show ?thesis by (simp add: chapter_next)
    next
      case 3
      with that(3) have "pg = chapter2b" by (simp add: bookSite_at)
      with 3 that(4) show ?thesis by (simp add: chapter_next)
    next
      case 4
      with that(3) have "pg = chapter3a" by (simp add: bookSite_at)
      with 4 that(4) show ?thesis by (simp add: chapter_next)
    next
      case 5
      with that(3) have "pg = chapter3b" by (simp add: bookSite_at)
      with 5 that(4) show ?thesis by (simp add: chapter_next)
    next
      case 6
      with that(3) have "pg = chapter3c" by (simp add: bookSite_at)
      with 6 that(4) show ?thesis by (simp add: chapter_next)
    qed
  qed
  have "\<exists>results.
           downloadAllChapters 7 noParser keepTitle (\<lambda>i. bookSite) bookChapters siteConfig
             = Some (Inr results)
         \<and> length results = length bookChapters
         \<and> map index results = [0..<length bookChapters]
         \<and> (\<forall>i < length bookChapters.
               chapterTask 7 noParser keepTitle bookSite siteConfig (bookChapters ! i) i
                 = Some (Fulfilled (results ! i)))"
    using cap fin start closed c by (rule downloadAllChapters_one_result_per_chapter)
  then obtain results where
    r: "downloadAllChapters 7 noParser keepTitle (\<lambda>i. bookSite) bookChapters siteConfig
          = Some (Inr results)"
    and l: "length results = length bookChapters"
    and m: "map index results = [0..<length bookChapters]"
    and t: "\<forall>i < length bookChapters.
              chapterTask 7 noParser keepTitle bookSite siteConfig (bookChapters ! i) i
                = Some (Fulfilled (results ! i))"
    by blast
  from r have eq: "results = bookResults" by (simp add: book_download)
  have one: "(1::nat) < length bookChapters" by (simp add: bookChapters_def)
  from t one have "chapterTask 7 noParser keepTitle bookSite siteConfig (bookChapters ! 1) 1
                     = Some (Fulfilled (results ! 1))" by blast
  with cap fin c l m eq book_download show ?thesis by simp
qed

end
